theory Spec2Isabelle
  imports Main "HOL-Library.Multiset"
begin

section \<open>Overview\<close>

text \<open>
  A model of the document registry of \<open>index.tsx\<close>: the remote store client
  (\<open>syncWithGoogleSheet\<close>), the in-memory collection with its cache and the update and
  delete handlers, search, the sortable results table and the attachment check.

  \<^item> A handler runs to completion: nothing else runs while it awaits the network.
  \<^item> The network is a script of outcomes, one for each exchange; every exchange, timed
    delay and cache write is recorded in a trace.
  \<^item> Of the page, the state holds what the handlers read and write: the search input,
    whether the search view is shown, what the results container shows, the notifications,
    the edit form's file input and validation messages. The elements the rendered page
    always contains are taken to exist; button labels and spinners are left out.
  \<^item> What the browser provides and the repository does not define (the local time
    zone, the \<open>Date\<close> string parser, the collation of \<open>localeCompare\<close>) is a
    parameter, the \<open>host\<close>.
\<close>

section \<open>JavaScript strings\<close>

text \<open>
  A JavaScript string is modelled as a \<^typ>\<open>string\<close>, each \<^typ>\<open>char\<close> standing for the
  code unit of the same number, 0 to 255 (Basic Latin and Latin-1 Supplement). Strings
  with a code unit from 256 on, Thai script among them, are outside the model. On the code
  units of the model the built-in string methods are those of ECMAScript:
  \<open>toLowerCase\<close> maps \<open>A..Z\<close> and the Latin-1 capitals U+00C0..U+00DE (U+00D7, the
  multiplication sign, apart) to the letter 32 code units further on and leaves every
  other code unit alone; \<open>trim\<close> strips tab, line feed, vertical tab, form feed,
  carriage return, space and the no-break space U+00A0 from both ends.
\<close>

definition isUpperCase :: "char \<Rightarrow> bool" where
  "isUpperCase c =
     (((65::nat) \<le> of_char c \<and> of_char c \<le> (90::nat))
      \<or> ((192::nat) \<le> of_char c \<and> of_char c \<le> (222::nat) \<and> of_char c \<noteq> (215::nat)))"

definition toLowerCaseChar :: "char \<Rightarrow> char" where
  "toLowerCaseChar c = (if isUpperCase c then char_of (of_char c + (32::nat)) else c)"

definition toLowerCase :: "string \<Rightarrow> string" where
  "toLowerCase s = map toLowerCaseChar s"

definition isWhiteSpace :: "char \<Rightarrow> bool" where
  "isWhiteSpace c = (of_char c \<in> {9, 10, 11, 12, 13, 32, 160::nat})"

definition trim :: "string \<Rightarrow> string" where
  "trim s = rev (dropWhile isWhiteSpace (rev (dropWhile isWhiteSpace s)))"

text \<open>\<open>s.includes(q)\<close>: \<open>q\<close> occurs in \<open>s\<close> as a contiguous run.\<close>

fun str_includes :: "string \<Rightarrow> string \<Rightarrow> bool" where
  "str_includes [] q = (q = [])"
| "str_includes (c # s) q = (take (length q) (c # s) = q \<or> str_includes s q)"

text \<open>\<open>s.split(sep)\<close> for a one-character separator; the result is never empty.\<close>

fun split_on :: "char \<Rightarrow> string \<Rightarrow> string list" where
  "split_on sep [] = [[]]"
| "split_on sep (c # s) =
     (if c = sep then [] # split_on sep s
      else (case split_on sep s of
              [] \<Rightarrow> [[c]]
            | p # ps \<Rightarrow> (c # p) # ps))"

definition isDigit :: "char \<Rightarrow> bool" where
  "isDigit c = ((48::nat) \<le> of_char c \<and> of_char c \<le> (57::nat))"

definition digitVal :: "char \<Rightarrow> nat" where
  "digitVal c = of_char c - 48"

definition digitsVal :: "string \<Rightarrow> nat" where
  "digitsVal ds = foldl (\<lambda>a c. 10 * a + digitVal c) 0 ds"

text \<open>
  A JavaScript number that may be \<open>NaN\<close> is an \<^typ>\<open>int option\<close> with \<open>None\<close> for
  \<open>NaN\<close>; the numbers the application computes with are integers.

  \<open>parseInt(s, 10)\<close>: leading white space is skipped, an optional sign is read, then the
  longest run of decimal digits; without a digit the result is \<open>NaN\<close>.
\<close>

definition parseInt :: "string \<Rightarrow> int option" where
  "parseInt s =
     (let t = dropWhile isWhiteSpace s;
          neg = (case t of [] \<Rightarrow> False | c # _ \<Rightarrow> c = CHR ''-'');
          u = (case t of [] \<Rightarrow> []
               | c # r \<Rightarrow> if c = CHR ''-'' \<or> c = CHR ''+'' then r else t);
          ds = takeWhile isDigit u
      in if ds = [] then None
         else Some (if neg then - int (digitsVal ds) else int (digitsVal ds)))"

text \<open>Decimal rendering of a number inside a template literal.\<close>

fun string_of_nat :: "nat \<Rightarrow> string" where
  "string_of_nat n =
     (if n < 10 then [''0123456789'' ! n]
      else string_of_nat (n div 10) @ [''0123456789'' ! (n mod 10)])"

section \<open>The Date constructor\<close>

text \<open>
  \<open>new Date(year, month, day).getTime()\<close> follows ECMAScript: a year from 0 to 99 stands
  for 1900 + year, the month may lie outside 0..11 and the day outside the month (both
  roll over), the date is read in the host's local time zone, and a time value beyond
  8.64e15 ms is \<open>NaN\<close>. The host's conversion from local time to UTC and its
  \<open>Date\<close> string parser and collation are not part of the repository; they are the
  fields of a \<open>host\<close>.
\<close>

record host =
  UTC :: "int \<Rightarrow> int"
  DateParse :: "string \<Rightarrow> int option"
  localeCompare :: "string \<Rightarrow> string \<Rightarrow> int"

definition msPerDay :: int where
  "msPerDay = 86400000"

definition DayFromYear :: "int \<Rightarrow> int" where
  "DayFromYear y =
     365 * (y - 1970) + (y - 1969) div 4 - (y - 1901) div 100 + (y - 1601) div 400"

definition InLeapYear :: "int \<Rightarrow> bool" where
  "InLeapYear y = ((y mod 4 = 0 \<and> y mod 100 \<noteq> 0) \<or> y mod 400 = 0)"

definition monthStart :: "int \<Rightarrow> bool \<Rightarrow> int" where
  "monthStart mn leap =
     [0, 31, 59, 90, 120, 151, 181, 212, 243, 273, 304, 334] ! nat mn
       + (if leap \<and> 2 \<le> mn then 1 else 0)"

definition MakeDay :: "int \<Rightarrow> int \<Rightarrow> int \<Rightarrow> int" where
  "MakeDay year month date =
     (let ym = year + month div 12; mn = month mod 12
      in DayFromYear ym + monthStart mn (InLeapYear ym) + date - 1)"

definition MakeDate :: "int \<Rightarrow> int \<Rightarrow> int" where
  "MakeDate day time = day * msPerDay + time"

definition MakeFullYear :: "int \<Rightarrow> int" where
  "MakeFullYear y = (if 0 \<le> y \<and> y \<le> 99 then 1900 + y else y)"

definition TimeClip :: "int \<Rightarrow> int option" where
  "TimeClip t = (if \<bar>t\<bar> > 8640000000000000 then None else Some t)"

definition newDate :: "host \<Rightarrow> int option \<Rightarrow> int option \<Rightarrow> int option \<Rightarrow> int option" where
  "newDate h y m d =
     (case (y, m, d) of
        (Some yv, Some mv, Some dv) \<Rightarrow>
          TimeClip (UTC h (MakeDate (MakeDay (MakeFullYear yv) mv dv) 0))
      | _ \<Rightarrow> None)"

text \<open>\<open>x - 543\<close> and \<open>x - 1\<close> on a number that may be \<open>NaN\<close>.\<close>

definition minus_num :: "int option \<Rightarrow> int \<Rightarrow> int option" where
  "minus_num x k = map_option (\<lambda>v. v - k) x"

text \<open>
  \<open>beDateToTimestamp\<close>, on a \<open>docDate\<close> that may be missing (\<open>None\<close>): a missing or
  empty string and a string that does not split into three parts give 0.
\<close>

definition beDateToTimestamp :: "host \<Rightarrow> string option \<Rightarrow> int option" where
  "beDateToTimestamp h beDateString =
     (case beDateString of
        None \<Rightarrow> Some 0
      | Some s \<Rightarrow>
          if s = [] then Some 0
          else (let parts = split_on CHR ''/'' s
                in if length parts \<noteq> 3 then Some 0
                   else (let day = parts ! 0;
                             month = parts ! 1;
                             beYear = parseInt (parts ! 2);
                             gregorianYear = minus_num beYear 543
                         in newDate h gregorianYear (minus_num (parseInt month) 1) (parseInt day))))"

text \<open>\<open>new Date(s).getTime()\<close> on a string that may be missing.\<close>

definition getTime :: "host \<Rightarrow> string option \<Rightarrow> int option" where
  "getTime h s = (case s of None \<Rightarrow> None | Some v \<Rightarrow> DateParse h v)"

section \<open>Documents\<close>

text \<open>
  A document as the running program holds it. The collection is replaced wholesale by
  whatever the remote read returns, so every property may be missing at run time:
  \<open>None\<close> is a missing (undefined) property. The properties \<open>id\<close> and \<open>notes\<close>
  are the fields \<open>doc_id\<close> and \<open>doc_notes\<close>.
\<close>

record Document =
  doc_id :: "string option"
  docNumber :: "string option"
  source :: "string option"
  subject :: "string option"
  docDate :: "string option"
  doc_notes :: "string option"
  tags :: "string list option"
  createdAt :: "string option"
  fileName :: "string option"
  fileContent :: "string option"
  fileType :: "string option"

section \<open>Sorting\<close>

datatype sort_key = KCreatedAt | KDocNumber | KDocDate | KSource | KSubject

datatype sort_direction = Asc | Desc

record sort_state =
  key :: sort_key
  direction :: sort_direction

text \<open>
  \<open>Array.prototype.sort\<close> is stable; a comparator result that is \<open>NaN\<close> counts as 0.
  The model inserts from the right, each element before the first element it does not
  exceed, which is the stable order for a consistent comparator.
\<close>

fun insertBy :: "('a \<Rightarrow> 'a \<Rightarrow> int) \<Rightarrow> 'a \<Rightarrow> 'a list \<Rightarrow> 'a list" where
  "insertBy cmp x [] = [x]"
| "insertBy cmp x (y # ys) = (if cmp x y \<le> 0 then x # y # ys else y # insertBy cmp x ys)"

definition jsSort :: "('a \<Rightarrow> 'a \<Rightarrow> int) \<Rightarrow> 'a list \<Rightarrow> 'a list" where
  "jsSort cmp xs = foldr (insertBy cmp) xs []"

text \<open>\<open>x - y\<close> as a comparator result: \<open>NaN\<close> when either side is, read as 0.\<close>

definition numDiff :: "int option \<Rightarrow> int option \<Rightarrow> int" where
  "numDiff x y = (case (x, y) of (Some a, Some b) \<Rightarrow> a - b | _ \<Rightarrow> 0)"

text \<open>\<open>(a[key] as string) || ''\<close> for the three text columns.\<close>

definition keyValue :: "sort_key \<Rightarrow> Document \<Rightarrow> string" where
  "keyValue k d =
     (case (case k of KDocNumber \<Rightarrow> docNumber d | KSource \<Rightarrow> source d
                    | KSubject \<Rightarrow> subject d | KDocDate \<Rightarrow> docDate d
                    | KCreatedAt \<Rightarrow> createdAt d) of
        None \<Rightarrow> [] | Some v \<Rightarrow> v)"

text \<open>The comparator of \<open>renderResultsTable\<close>.\<close>

definition compareDocs :: "host \<Rightarrow> sort_state \<Rightarrow> Document \<Rightarrow> Document \<Rightarrow> int" where
  "compareDocs h cs a b =
     (if key cs = KDocDate then
        (let dateA = beDateToTimestamp h (docDate a);
             dateB = beDateToTimestamp h (docDate b)
         in if direction cs = Asc then numDiff dateA dateB else numDiff dateB dateA)
      else if key cs = KCreatedAt then
        (let dateA = getTime h (createdAt a);
             dateB = getTime h (createdAt b)
         in if direction cs = Asc then numDiff dateA dateB else numDiff dateB dateA)
      else
        (let valA = keyValue (key cs) a;
             valB = keyValue (key cs) b
         in if direction cs = Asc then localeCompare h valA valB
            else localeCompare h valB valA))"

definition sortDocs :: "host \<Rightarrow> sort_state \<Rightarrow> Document list \<Rightarrow> Document list" where
  "sortDocs h cs docs = jsSort (compareDocs h cs) docs"

section \<open>Errors, the network and the event trace\<close>

text \<open>
  A thrown value is its error class and message. The Thai texts of the source's messages
  are written here in English; only which message is shown matters below.
\<close>

datatype js_error = TypeError string | SyntaxError string | Error string

fun message :: "js_error \<Rightarrow> string" where
  "message (TypeError m) = m"
| "message (SyntaxError m) = m"
| "message (Error m) = m"

definition msgUnknownSyncError :: string where
  "msgUnknownSyncError = ''An unknown error occurred while syncing with Google Sheets''"

definition msgInvalidResponse :: string where
  "msgInvalidResponse = ''Received an invalid response from the server''"

definition detailedMessage :: string where
  "detailedMessage = ''Sync failed (Failed to fetch). Please check the internet connection and that the Google Sheets Web App is shared with Anyone''"

text \<open>
  The body of a response as \<open>JSON.parse\<close> sees it: text that does not parse, the
  value \<open>null\<close> (reading a property of it throws), or a value of which the code reads
  whether \<open>success === false\<close>, the \<open>error\<close> text and the \<open>data\<close>.
\<close>

datatype parsed =
    ParseFailure
  | JsonNull
  | JsonValue (successIsFalse: bool) (errorField: "string option") (dataField: "Document list option")

datatype text_outcome = TextRejected js_error | TextBody parsed

datatype fetch_outcome = FetchRejected js_error | FetchResponse nat text_outcome

datatype payload = PDocument Document | PId string | PEmpty

datatype event = Fetch string payload | Delay nat | SetItem "Document list"

text \<open>The inner \<open>try\<close> block: parse, check the flag, return the data.\<close>

definition parseBody :: "parsed \<Rightarrow> js_error + Document list option" where
  "parseBody textData =
     (case textData of
        ParseFailure \<Rightarrow> Inl (SyntaxError ''Unexpected token'')
      | JsonNull \<Rightarrow> Inl (TypeError ''Cannot read properties of null (reading success)'')
      | JsonValue isFalse err dat \<Rightarrow>
          if isFalse
          then Inl (Error (case err of None \<Rightarrow> msgUnknownSyncError
                           | Some m \<Rightarrow> if m = [] then msgUnknownSyncError else m))
          else Inr dat)"

text \<open>The inner \<open>catch (e)\<close>: whatever the inner block threw is replaced.\<close>

definition parseResponse :: "parsed \<Rightarrow> js_error + Document list option" where
  "parseResponse textData =
     (case parseBody textData of
        Inl e \<Rightarrow> Inl (Error msgInvalidResponse)
      | Inr dat \<Rightarrow> Inr dat)"

text \<open>The outer \<open>try\<close> block, one network exchange.\<close>

definition tryExchange :: "fetch_outcome \<Rightarrow> js_error + Document list option" where
  "tryExchange out =
     (case out of
        FetchRejected e \<Rightarrow> Inl e
      | FetchResponse status txt \<Rightarrow>
          if \<not> (200 \<le> status \<and> status \<le> 299)
          then Inl (Error (''HTTP error! status: '' @ string_of_nat status))
          else (case txt of
                  TextRejected e \<Rightarrow> Inl e
                | TextBody textData \<Rightarrow> parseResponse textData))"

definition isFetchError :: "js_error \<Rightarrow> bool" where
  "isFetchError error = (error = TypeError ''Failed to fetch'')"

text \<open>
  \<open>syncWithGoogleSheet\<close>. The network is a script \<open>net\<close>: \<open>net k\<close> is what the
  \<open>k\<close>-th exchange from now does. The result comes with the trace of exchanges and
  timed delays.
\<close>

fun syncWithGoogleSheet ::
  "(nat \<Rightarrow> fetch_outcome) \<Rightarrow> string \<Rightarrow> payload \<Rightarrow> nat \<Rightarrow> nat
     \<Rightarrow> (js_error + Document list option) \<times> event list" where
  "syncWithGoogleSheet net action pl retries delay =
     (case tryExchange (net 0) of
        Inr dat \<Rightarrow> (Inr dat, [Fetch action pl])
      | Inl error \<Rightarrow>
          if isFetchError error \<and> retries > 0 then
            (case syncWithGoogleSheet (\<lambda>k. net (Suc k)) action pl (retries - 1) (delay * 2) of
               (r, evs) \<Rightarrow> (r, Fetch action pl # Delay delay # evs))
          else if isFetchError error then (Inl (Error detailedMessage), [Fetch action pl])
          else (Inl error, [Fetch action pl]))"

declare syncWithGoogleSheet.simps [simp del]

section \<open>Application state\<close>

text \<open>
  What the \<open>search-results\<close> container shows: nothing yet, the placeholder for an empty
  collection, the "not found" message under a title, or a table under a title. A table
  carries the sort key and direction written into its headers
  (\<open>data-sort-direction\<close> on the header of the active key) and its rows in order.
\<close>

datatype results_view =
    Unrendered
  | NoDocuments
  | NotFound string
  | Table string sort_state "Document list"

datatype toast_type = SuccessToast | ErrorToast

record js_file =
  file_name :: string
  file_type :: string
  file_size :: nat
  file_base64 :: "string option"

record file_input =
  files :: "js_file option"
  displayText :: string
  errorText :: string
  invalid :: bool

record app_state =
  documents :: "Document list"
  localStorage :: "Document list option"
  currentSort :: sort_state
  lastRenderedDocs :: "Document list"
  lastRenderedTitle :: string
  searchViewVisible :: bool
  searchInput :: string
  resultsView :: results_view
  toasts :: "(string \<times> toast_type) list"
  trace :: "event list"
  editAttachment :: file_input
  editFormErrors :: "(string \<times> string) list"
  editModalVisible :: bool

definition titleRecent :: string where
  "titleRecent = ''Latest 10 documents''"

definition titleResults :: string where
  "titleResults = ''Search results''"

definition showToast :: "string \<Rightarrow> toast_type \<Rightarrow> app_state \<Rightarrow> app_state" where
  "showToast msg ty s = s\<lparr>toasts := toasts s @ [(msg, ty)]\<rparr>"

section \<open>Rendering and search\<close>

definition renderResultsTable :: "host \<Rightarrow> Document list \<Rightarrow> string \<Rightarrow> app_state \<Rightarrow> app_state" where
  "renderResultsTable h docs title s =
     (let s1 = s\<lparr>lastRenderedDocs := docs, lastRenderedTitle := title\<rparr>
      in if docs = [] then s1\<lparr>resultsView := NotFound title\<rparr>
         else s1\<lparr>resultsView := Table title (currentSort s1) (sortDocs h (currentSort s1) docs)\<rparr>)"

definition recentCompare :: "host \<Rightarrow> Document \<Rightarrow> Document \<Rightarrow> int" where
  "recentCompare h a b = numDiff (getTime h (createdAt b)) (getTime h (createdAt a))"

definition renderRecentDocuments :: "host \<Rightarrow> app_state \<Rightarrow> app_state" where
  "renderRecentDocuments h s =
     (let recentDocs = take 10 (jsSort (recentCompare h) (documents s))
      in if documents s = [] then s\<lparr>resultsView := NoDocuments\<rparr>
         else renderResultsTable h recentDocs titleRecent
                (s\<lparr>currentSort := \<lparr>key = KCreatedAt, direction = Desc\<rparr>\<rparr>))"

definition undefinedRead :: "string \<Rightarrow> js_error" where
  "undefinedRead prop = TypeError (''Cannot read properties of undefined (reading '' @ prop @ '')'')"

text \<open>
  The predicate of the filter in \<open>handleSearch\<close>. \<open>||\<close> evaluates left to right and
  stops at the first true operand; calling a method on a missing property throws.
\<close>

definition docMatches :: "string \<Rightarrow> Document \<Rightarrow> js_error + bool" where
  "docMatches query doc =
     (case subject doc of
        None \<Rightarrow> Inl (undefinedRead ''toLowerCase'')
      | Some sub \<Rightarrow>
     if str_includes (toLowerCase sub) query then Inr True else
     (case docNumber doc of
        None \<Rightarrow> Inl (undefinedRead ''toLowerCase'')
      | Some num \<Rightarrow>
     if str_includes (toLowerCase num) query then Inr True else
     (case source doc of
        None \<Rightarrow> Inl (undefinedRead ''toLowerCase'')
      | Some src \<Rightarrow>
     if str_includes (toLowerCase src) query then Inr True else
     (case doc_notes doc of
        None \<Rightarrow> Inl (undefinedRead ''toLowerCase'')
      | Some nts \<Rightarrow>
     if str_includes (toLowerCase nts) query then Inr True else
     if (case fileName doc of
           None \<Rightarrow> False
         | Some fnm \<Rightarrow> fnm \<noteq> [] \<and> str_includes (toLowerCase fnm) query) then Inr True else
     (case tags doc of
        None \<Rightarrow> Inl (undefinedRead ''some'')
      | Some tgs \<Rightarrow> Inr (list_ex (\<lambda>tag. str_includes (toLowerCase tag) query) tgs))))))"

text \<open>\<open>Array.prototype.filter\<close> with a predicate that may throw.\<close>

fun filterDocs :: "('a \<Rightarrow> js_error + bool) \<Rightarrow> 'a list \<Rightarrow> js_error + 'a list" where
  "filterDocs p [] = Inr []"
| "filterDocs p (x # xs) =
     (case p x of
        Inl e \<Rightarrow> Inl e
      | Inr b \<Rightarrow>
          (case filterDocs p xs of
             Inl e \<Rightarrow> Inl e
           | Inr ys \<Rightarrow> Inr (if b then x # ys else ys)))"

text \<open>
  \<open>handleSearch\<close> and \<open>saveDocuments\<close> return the error thrown, if any, with the state
  reached.
\<close>

definition handleSearch :: "host \<Rightarrow> app_state \<Rightarrow> js_error option \<times> app_state" where
  "handleSearch h s =
     (let query = trim (toLowerCase (searchInput s))
      in if query = [] then (None, renderRecentDocuments h s)
         else (case filterDocs (docMatches query) (documents s) of
                 Inl e \<Rightarrow> (Some e, s)
               | Inr results \<Rightarrow> (None, renderResultsTable h results titleResults s)))"

definition saveDocuments :: "host \<Rightarrow> app_state \<Rightarrow> js_error option \<times> app_state" where
  "saveDocuments h s =
     (let s1 = s\<lparr>localStorage := Some (documents s), trace := trace s @ [SetItem (documents s)]\<rparr>
      in if searchViewVisible s1 then
           (if trim (searchInput s1) \<noteq> [] then handleSearch h s1
            else (None, renderRecentDocuments h s1))
         else (None, s1))"

text \<open>
  The click listener on a sortable header (in \<open>addAppEventListeners\<close>). Headers exist
  only while a table is shown; \<open>currentDirection\<close> is read from the clicked header.
\<close>

definition sortHeaderClick :: "host \<Rightarrow> sort_key \<Rightarrow> app_state \<Rightarrow> app_state" where
  "sortHeaderClick h sortKey s =
     (case resultsView s of
        Table title shown rows \<Rightarrow>
          (let currentDirection = (if key shown = sortKey then Some (direction shown) else None);
               dir = (if key (currentSort s) = sortKey \<and> currentDirection = Some Desc
                      then Asc else Desc)
           in renderResultsTable h (lastRenderedDocs s) (lastRenderedTitle s)
                (s\<lparr>currentSort := \<lparr>key = sortKey, direction = dir\<rparr>\<rparr>))
      | _ \<Rightarrow> s)"

section \<open>Attachments\<close>

definition maxSize :: nat where
  "maxSize = 50 * 1024 * 1024"

definition allowedTypes :: "string list" where
  "allowedTypes = [''image/jpeg'', ''image/png'', ''image/gif'', ''application/pdf'']"

definition msgNoFile :: string where
  "msgNoFile = ''No file selected''"

definition msgTooBig :: string where
  "msgTooBig = ''File size exceeds 50MB''"

definition msgBadType :: string where
  "msgBadType = ''Invalid file type (must be an image or PDF)''"

text \<open>
  \<open>handleFileChange\<close> runs on the file input that changed, which already holds the
  user's selection; a rejected selection is cleared from the input. The display area and
  the error element beside the input are part of the rendered form.
\<close>

definition handleFileChange :: "file_input \<Rightarrow> file_input" where
  "handleFileChange input =
     (let inp = input\<lparr>errorText := [], invalid := False\<rparr>
      in case files inp of
           Some file \<Rightarrow>
             if file_size file > maxSize then
               inp\<lparr>errorText := msgTooBig, invalid := True, files := None, displayText := msgNoFile\<rparr>
             else if file_type file \<notin> set allowedTypes then
               inp\<lparr>errorText := msgBadType, invalid := True, files := None, displayText := msgNoFile\<rparr>
             else inp\<lparr>displayText := file_name file\<rparr>
         | None \<Rightarrow> inp\<lparr>displayText := msgNoFile\<rparr>)"

text \<open>The user picks \<open>sel\<close> in the edit form's file input and its change event fires.\<close>

definition editAttachmentChange :: "js_file option \<Rightarrow> app_state \<Rightarrow> app_state" where
  "editAttachmentChange sel s =
     s\<lparr>editAttachment := handleFileChange ((editAttachment s)\<lparr>files := sel\<rparr>)\<rparr>"

section \<open>Update and delete\<close>

record edit_form =
  edit_docId :: string
  edit_docNumber :: string
  edit_docDate :: string
  edit_source :: string
  edit_subject :: string
  edit_notes :: string

text \<open>The test of \<open>/^\d{2}\/\d{2}\/\d{4}$/\<close>.\<close>

fun dateRegex_test :: "string \<Rightarrow> bool" where
  "dateRegex_test [d1, d2, s1, m1, m2, s2, y1, y2, y3, y4] =
     (isDigit d1 \<and> isDigit d2 \<and> s1 = CHR ''/'' \<and> isDigit m1 \<and> isDigit m2 \<and> s2 = CHR ''/''
      \<and> isDigit y1 \<and> isDigit y2 \<and> isDigit y3 \<and> isDigit y4)"
| "dateRegex_test _ = False"

definition validateEditForm :: "edit_form \<Rightarrow> (string \<times> string) list" where
  "validateEditForm form =
     (if trim (edit_docNumber form) = []
      then [(''edit-docNumber'', ''Please enter the document number'')] else [])
     @ (if trim (edit_docDate form) = [] \<or> \<not> dateRegex_test (trim (edit_docDate form))
        then [(''edit-docDate'', ''Please enter a valid date (dd/mm/yyyy)'')] else [])
     @ (if trim (edit_source form) = []
        then [(''edit-source'', ''Please enter the document source'')] else [])
     @ (if trim (edit_subject form) = []
        then [(''edit-subject'', ''Please enter the document subject'')] else [])"

fun findIndex :: "('a \<Rightarrow> bool) \<Rightarrow> 'a list \<Rightarrow> nat option" where
  "findIndex p [] = None"
| "findIndex p (x # xs) = (if p x then Some 0 else map_option Suc (findIndex p xs))"

definition msgUpdated :: string where
  "msgUpdated = ''Document updated''"

definition msgDeleted :: string where
  "msgDeleted = ''Document deleted''"

text \<open>
  The document \<open>handleUpdateDocument\<close> builds: the existing entry with five properties
  overwritten from the form, and the attachment overwritten when a file is chosen
  (\<open>content\<close> is its base64 text). The legacy properties \<open>fileName2\<close>,
  \<open>fileContent2\<close> and \<open>fileType2\<close> that the handler deletes are not part of the
  record.
\<close>

definition updatedDocData :: "Document \<Rightarrow> edit_form \<Rightarrow> (js_file \<times> string) option \<Rightarrow> Document" where
  "updatedDocData existing form newFile =
     (let d = existing\<lparr>docNumber := Some (edit_docNumber form),
                       docDate := Some (trim (edit_docDate form)),
                       source := Some (edit_source form),
                       subject := Some (edit_subject form),
                       doc_notes := Some (edit_notes form)\<rparr>
      in case newFile of
           None \<Rightarrow> d
         | Some (file, content) \<Rightarrow>
             d\<lparr>fileName := Some (file_name file), fileType := Some (file_type file),
               fileContent := Some content\<rparr>)"

text \<open>The \<open>try\<close> / \<open>catch\<close> of \<open>handleUpdateDocument\<close>, from the remote call on.\<close>

definition commitUpdate ::
  "host \<Rightarrow> (nat \<Rightarrow> fetch_outcome) \<Rightarrow> nat \<Rightarrow> Document \<Rightarrow> app_state \<Rightarrow> app_state" where
  "commitUpdate h net docIndex updated s =
     (case syncWithGoogleSheet net ''update'' (PDocument updated) 2 1000 of
        (Inl error, evs) \<Rightarrow> showToast (message error) ErrorToast (s\<lparr>trace := trace s @ evs\<rparr>)
      | (Inr dat, evs) \<Rightarrow>
          (case saveDocuments h (s\<lparr>documents := (documents s)[docIndex := updated],
                                   trace := trace s @ evs\<rparr>) of
             (Some error, s1) \<Rightarrow> showToast (message error) ErrorToast s1
           | (None, s1) \<Rightarrow>
               showToast msgUpdated SuccessToast
                 (s1\<lparr>editModalVisible := False,
                     editAttachment := (editAttachment s1)\<lparr>files := None\<rparr>\<rparr>)))"

text \<open>
  \<open>handleUpdateDocument\<close>, run to completion without interleaving. A failing file read
  rejects the handler before the remote call.
\<close>

definition handleUpdateDocument ::
  "host \<Rightarrow> (nat \<Rightarrow> fetch_outcome) \<Rightarrow> edit_form \<Rightarrow> app_state \<Rightarrow> app_state" where
  "handleUpdateDocument h net form s =
     (let errs = validateEditForm form;
          s0 = s\<lparr>editFormErrors := errs,
                 editAttachment := (editAttachment s)\<lparr>errorText := [], invalid := False\<rparr>\<rparr>
      in if errs \<noteq> [] then s0
         else (case findIndex (\<lambda>d. doc_id d = Some (edit_docId form)) (documents s0) of
                 None \<Rightarrow> s0
               | Some docIndex \<Rightarrow>
                   (case files (editAttachment s0) of
                      None \<Rightarrow>
                        commitUpdate h net docIndex
                          (updatedDocData (documents s0 ! docIndex) form None) s0
                    | Some file \<Rightarrow>
                        (case file_base64 file of
                           None \<Rightarrow> s0
                         | Some content \<Rightarrow>
                             commitUpdate h net docIndex
                               (updatedDocData (documents s0 ! docIndex) form (Some (file, content)))
                               s0))))"

text \<open>
  \<open>handleDeleteDocument\<close>; \<open>confirmed\<close> is the user's answer to the confirmation
  dialog.
\<close>

definition handleDeleteDocument ::
  "host \<Rightarrow> (nat \<Rightarrow> fetch_outcome) \<Rightarrow> bool \<Rightarrow> string \<Rightarrow> app_state \<Rightarrow> app_state" where
  "handleDeleteDocument h net confirmed docId s =
     (case find (\<lambda>d. doc_id d = Some docId) (documents s) of
        None \<Rightarrow> s
      | Some doc \<Rightarrow>
          if confirmed then
            (case syncWithGoogleSheet net ''delete'' (PId docId) 2 1000 of
               (Inl error, evs) \<Rightarrow> showToast (message error) ErrorToast (s\<lparr>trace := trace s @ evs\<rparr>)
             | (Inr dat, evs) \<Rightarrow>
                 (case saveDocuments h
                         (s\<lparr>documents := filter (\<lambda>d. doc_id d \<noteq> Some docId) (documents s),
                            trace := trace s @ evs\<rparr>) of
                    (Some error, s1) \<Rightarrow> showToast (message error) ErrorToast s1
                  | (None, s1) \<Rightarrow> showToast msgDeleted SuccessToast s1))
          else s)"

section \<open>Observations on event traces\<close>

text \<open>The number of network exchanges in a trace, and its timed delays in order.\<close>

fun fetchCount :: "event list \<Rightarrow> nat" where
  "fetchCount [] = 0"
| "fetchCount (Fetch a p # evs) = Suc (fetchCount evs)"
| "fetchCount (_ # evs) = fetchCount evs"

fun delaysOf :: "event list \<Rightarrow> nat list" where
  "delaysOf [] = []"
| "delaysOf (Delay d # evs) = d # delaysOf evs"
| "delaysOf (_ # evs) = delaysOf evs"

text \<open>
  An exchange that broke at the transport level: \<open>fetch\<close>, or reading the body of a
  response with a 2xx status, rejected with the browser's \<open>Failed to fetch\<close> error.
\<close>

definition transportFailure :: "fetch_outcome \<Rightarrow> bool" where
  "transportFailure out =
     (case out of
        FetchRejected e \<Rightarrow> isFetchError e
      | FetchResponse status txt \<Rightarrow>
          200 \<le> status \<and> status \<le> 299
          \<and> (case txt of TextRejected e \<Rightarrow> isFetchError e | TextBody b \<Rightarrow> False))"


text \<open>The collections written to the local cache, in order.\<close>

fun cacheWrites :: "event list \<Rightarrow> Document list list" where
  "cacheWrites [] = []"
| "cacheWrites (SetItem ds # evs) = ds # cacheWrites evs"
| "cacheWrites (_ # evs) = cacheWrites evs"

section \<open>A sample host and sample data\<close>

text \<open>
  A host for worked examples: local time is UTC+7 throughout (Bangkok), \<open>Date\<close> parses
  the format \<open>toISOString\<close> writes (\<open>YYYY-MM-DDTHH:mm:ss.sssZ\<close>), the format of every
  \<open>createdAt\<close> the application itself produces, and strings are collated by character
  code.
\<close>

definition isoField :: "string \<Rightarrow> nat \<Rightarrow> nat \<Rightarrow> int" where
  "isoField s i n = int (digitsVal (take n (drop i s)))"

definition isoParse :: "string \<Rightarrow> int option" where
  "isoParse s =
     (if length s = 24 \<and> s ! 4 = CHR ''-'' \<and> s ! 7 = CHR ''-'' \<and> s ! 10 = CHR ''T''
         \<and> s ! 13 = CHR '':'' \<and> s ! 16 = CHR '':'' \<and> s ! 19 = CHR ''.'' \<and> s ! 23 = CHR ''Z''
         \<and> list_all isDigit (take 4 s @ take 2 (drop 5 s) @ take 2 (drop 8 s) @ take 2 (drop 11 s)
                               @ take 2 (drop 14 s) @ take 2 (drop 17 s) @ take 3 (drop 20 s))
      then Some (MakeDate (MakeDay (isoField s 0 4) (isoField s 5 2 - 1) (isoField s 8 2))
                   (isoField s 11 2 * 3600000 + isoField s 14 2 * 60000
                      + isoField s 17 2 * 1000 + isoField s 20 3))
      else None)"

fun codeCompare :: "string \<Rightarrow> string \<Rightarrow> int" where
  "codeCompare [] [] = 0"
| "codeCompare [] (y # ys) = - 1"
| "codeCompare (x # xs) [] = 1"
| "codeCompare (x # xs) (y # ys) =
     (if (of_char x :: nat) < of_char y then - 1
      else if (of_char y :: nat) < of_char x then 1
      else codeCompare xs ys)"

definition sampleHost :: host where
  "sampleHost = \<lparr>UTC = (\<lambda>t. t - 25200000), DateParse = isoParse, localeCompare = codeCompare\<rparr>"

text \<open>A document as \<open>handleSaveDocument\<close> builds it, without attachment.\<close>

definition sampleDoc :: "string \<Rightarrow> string \<Rightarrow> string \<Rightarrow> string list \<Rightarrow> string \<Rightarrow> Document" where
  "sampleDoc ident subj date tgs created =
     \<lparr>doc_id = Some ident, docNumber = Some ''MCU 8001/12'', source = Some ''Registrar'',
      subject = Some subj, docDate = Some date, doc_notes = Some [], tags = Some tgs,
      createdAt = Some created, fileName = None, fileContent = None, fileType = None\<rparr>"

text \<open>The state when the page has loaded with \<open>docs\<close> in the local cache.\<close>

definition initialState :: "Document list \<Rightarrow> app_state" where
  "initialState docs =
     \<lparr>documents = docs, localStorage = Some docs,
      currentSort = \<lparr>key = KCreatedAt, direction = Desc\<rparr>,
      lastRenderedDocs = [], lastRenderedTitle = [],
      searchViewVisible = False, searchInput = [], resultsView = Unrendered,
      toasts = [], trace = [],
      editAttachment = \<lparr>files = None, displayText = msgNoFile, errorText = [], invalid = False\<rparr>,
      editFormErrors = [], editModalVisible = False\<rparr>"

definition docA :: Document where
  "docA = sampleDoc ''doc_1700000000001'' ''Budget approval'' ''01/01/2566'' [''ABC'', ''finance'']
            ''2023-11-14T22:13:20.001Z''"

definition docB :: Document where
  "docB = sampleDoc ''doc_1700000000002'' ''Meeting minutes'' ''01/01/2565'' [''council'']
            ''2023-11-14T22:13:20.002Z''"

definition sampleForm :: edit_form where
  "sampleForm = \<lparr>edit_docId = ''doc_1700000000001'', edit_docNumber = ''MCU 8001/13'',
                 edit_docDate = '' 02/01/2566 '', edit_source = ''Dean'',
                 edit_subject = ''Budget approval (revised)'', edit_notes = ''urgent''\<rparr>"

text \<open>A network on which every exchange succeeds, and one that is down.\<close>

definition netOk :: "nat \<Rightarrow> fetch_outcome" where
  "netOk k = FetchResponse 200 (TextBody (JsonValue False None None))"

definition netDown :: "nat \<Rightarrow> fetch_outcome" where
  "netDown k = FetchRejected (TypeError ''Failed to fetch'')"

text \<open>A PDF of exactly 50 MB and a PNG of 51 MB.\<close>

definition file50MB :: js_file where
  "file50MB = \<lparr>file_name = ''scan.pdf'', file_type = ''application/pdf'',
                file_size = 50 * 1024 * 1024, file_base64 = Some ''JVBERi0xLjQ=''\<rparr>"

definition file51MB :: js_file where
  "file51MB = \<lparr>file_name = ''photo.png'', file_type = ''image/png'',
                file_size = 51 * 1024 * 1024, file_base64 = Some ''iVBORw0KGgo=''\<rparr>"

section \<open>Search as the specification words it\<close>

text \<open>
  The query is a case-insensitive substring of a field: the lower-cased query occurs in
  the lower-cased field. A missing field contains nothing.
\<close>

definition containsIgnoringCase :: "string \<Rightarrow> string \<Rightarrow> bool" where
  "containsIgnoringCase field query = (\<exists>p r. toLowerCase field = p @ toLowerCase query @ r)"

definition fieldContains :: "string option \<Rightarrow> string \<Rightarrow> bool" where
  "fieldContains field query =
     (case field of None \<Rightarrow> False | Some v \<Rightarrow> containsIgnoringCase v query)"

text \<open>
  A document matches when the query is a case-insensitive substring of its subject,
  document number, source, notes, attachment file name, or some tag.
\<close>

definition specMatches :: "string \<Rightarrow> Document \<Rightarrow> bool" where
  "specMatches query d =
     (fieldContains (subject d) query \<or> fieldContains (docNumber d) query
      \<or> fieldContains (source d) query \<or> fieldContains (doc_notes d) query
      \<or> fieldContains (fileName d) query
      \<or> (case tags d of None \<Rightarrow> False
          | Some tgs \<Rightarrow> list_ex (\<lambda>tag. containsIgnoringCase tag query) tgs))"

text \<open>
  The properties the \<open>Document\<close> interface declares as required and that search reads
  are present.
\<close>

definition hasSearchFields :: "Document \<Rightarrow> bool" where
  "hasSearchFields d =
     (subject d \<noteq> None \<and> docNumber d \<noteq> None \<and> source d \<noteq> None
      \<and> doc_notes d \<noteq> None \<and> tags d \<noteq> None)"

text \<open>
  Going through subject, document number, source, notes, file name and tags in this
  order, a missing subject, document number, source, notes or tags is reached before any
  field contains the query.
\<close>

definition missingBeforeMatch :: "string \<Rightarrow> Document \<Rightarrow> bool" where
  "missingBeforeMatch query d =
     (subject d = None \<or> (\<not> fieldContains (subject d) query \<and>
     (docNumber d = None \<or> (\<not> fieldContains (docNumber d) query \<and>
     (source d = None \<or> (\<not> fieldContains (source d) query \<and>
     (doc_notes d = None \<or> (\<not> fieldContains (doc_notes d) query \<and>
      \<not> fieldContains (fileName d) query \<and> tags d = None))))))))"

text \<open>The timestamp of a document whose \<open>createdAt\<close> parses.\<close>

definition createdTime :: "host \<Rightarrow> Document \<Rightarrow> int" where
  "createdTime h d = (case getTime h (createdAt d) of None \<Rightarrow> 0 | Some t \<Rightarrow> t)"

text \<open>A document as it may arrive from the remote read, with notes and tags missing.\<close>

definition docBare :: Document where
  "docBare = \<lparr>doc_id = Some ''doc_1700000000003'', docNumber = Some ''MCU 8001/14'',
              source = Some ''Archive'', subject = Some ''ABC report'',
              docDate = Some ''01/01/2564'', doc_notes = None, tags = None,
              createdAt = Some ''2023-11-14T22:13:20.003Z'', fileName = None,
              fileContent = None, fileType = None\<rparr>"

text \<open>
  A document that has every field search reads and whose \<open>createdAt\<close> is the empty
  string, which no \<open>Date\<close> parser reads as a date.
\<close>

definition docUndated :: "nat \<Rightarrow> Document" where
  "docUndated n = sampleDoc (''doc_'' @ string_of_nat n) ''Imported letter'' ''01/01/2560'' [] []"

text \<open>
  Two documents dated in the Buddhist-Era years 2400 (1857 CE) and 0600 (57 CE); both
  dates pass the form's date pattern.
\<close>

definition docBE2400 :: Document where
  "docBE2400 = sampleDoc ''doc_1700000000004'' ''Land deed'' ''01/01/2400'' [''deed'']
                 ''2023-11-14T22:13:20.004Z''"

definition docBE0600 :: Document where
  "docBE0600 = sampleDoc ''doc_1700000000005'' ''Chronicle'' ''01/01/0600'' [''history'']
                 ''2023-11-14T22:13:20.005Z''"

section \<open>The remote store client\<close>

lemma sync_0:
  "syncWithGoogleSheet net action pl 0 delay =
     (case tryExchange (net 0) of
        Inr dat \<Rightarrow> (Inr dat, [Fetch action pl])
      | Inl error \<Rightarrow>
          if isFetchError error then (Inl (Error detailedMessage), [Fetch action pl])
          else (Inl error, [Fetch action pl]))"
  by (subst syncWithGoogleSheet.simps) (simp split: sum.splits)

lemma sync_Suc:
  "syncWithGoogleSheet net action pl (Suc n) delay =
     (case tryExchange (net 0) of
        Inr dat \<Rightarrow> (Inr dat, [Fetch action pl])
      | Inl error \<Rightarrow>
          if isFetchError error then
            (case syncWithGoogleSheet (\<lambda>k. net (Suc k)) action pl n (delay * 2) of
               (r, evs) \<Rightarrow> (r, Fetch action pl # Delay delay # evs))
          else (Inl error, [Fetch action pl]))"
  by (subst syncWithGoogleSheet.simps) (simp split: sum.splits)

lemma sync_fetchCount_le:
  "fetchCount (snd (syncWithGoogleSheet net action pl n delay)) \<le> Suc n"
proof (induction n arbitrary: net delay)
  case 0
  show ?case by (auto simp: sync_0 split: sum.splits)
next
  case (Suc n)
  show ?case
    using Suc.IH[of "\<lambda>k. net (Suc k)" "delay * 2"]
    by (auto simp: sync_Suc split: sum.splits prod.splits)
qed

lemma sync_fetchCount_pos:
  "0 < fetchCount (snd (syncWithGoogleSheet net action pl n delay))"
  by (cases n) (auto simp: sync_0 sync_Suc split: sum.splits prod.splits)

lemma sync_delays:
  "delaysOf (snd (syncWithGoogleSheet net action pl n delay)) =
     map (\<lambda>k. delay * 2 ^ k) [0..<fetchCount (snd (syncWithGoogleSheet net action pl n delay)) - 1]"
proof (induction n arbitrary: net delay)
  case 0
  show ?case by (auto simp: sync_0 split: sum.splits)
next
  case (Suc n)
  show ?case
  proof (cases "tryExchange (net 0)")
    case (Inr dat)
    then show ?thesis by (simp add: sync_Suc)
  next
    case (Inl e)
    show ?thesis
    proof (cases "isFetchError e")
      case False
      with Inl show ?thesis by (simp add: sync_Suc)
    next
      case True
      obtain r evs where rec: "syncWithGoogleSheet (\<lambda>k. net (Suc k)) action pl n (delay * 2) = (r, evs)"
        by (cases "syncWithGoogleSheet (\<lambda>k. net (Suc k)) action pl n (delay * 2)")
      have pos: "0 < fetchCount evs"
        using sync_fetchCount_pos[of "\<lambda>k. net (Suc k)" action pl n "delay * 2"] rec by simp
      have ih: "delaysOf evs = map (\<lambda>k. delay * 2 * 2 ^ k) [0..<fetchCount evs - 1]"
        using Suc.IH[of "\<lambda>k. net (Suc k)" "delay * 2"] rec by simp
      have step: "map (\<lambda>k. delay * 2 ^ k) [0..<Suc m] =
            delay # map (\<lambda>k. delay * 2 * 2 ^ k) [0..<m]" for m
        by (simp only: map_upt_Suc) (simp add: mult.assoc)
      have "map (\<lambda>k. delay * 2 ^ k) [0..<fetchCount evs] =
            delay # map (\<lambda>k. delay * 2 * 2 ^ k) [0..<fetchCount evs - 1]"
        using pos step[of "fetchCount evs - 1"] by simp
      with Inl True rec ih show ?thesis by (simp add: sync_Suc)
    qed
  qed
qed

lemma sync_retry_only:
  "Suc k < fetchCount (snd (syncWithGoogleSheet net action pl n delay)) \<Longrightarrow>
     isFetchError (case tryExchange (net k) of Inl e \<Rightarrow> e | Inr _ \<Rightarrow> Error [])"
proof (induction n arbitrary: net delay k)
  case 0
  then show ?case by (auto simp: sync_0 split: sum.splits if_splits)
next
  case (Suc n)
  show ?case
  proof (cases k)
    case 0
    with Suc.prems show ?thesis
      by (auto simp: sync_Suc split: sum.splits if_splits prod.splits)
  next
    case (Suc j)
    with Suc.prems have "Suc j < fetchCount (snd (syncWithGoogleSheet (\<lambda>k. net (Suc k)) action pl n (delay * 2)))"
      by (auto simp: sync_Suc split: sum.splits if_splits prod.splits)
    from Suc.IH[OF this] Suc show ?thesis by simp
  qed
qed

lemma parseResponse_not_fetch_error:
  "parseResponse b = Inl e \<Longrightarrow> \<not> isFetchError e"
  by (auto simp: parseResponse_def isFetchError_def split: sum.splits)

lemma tryExchange_fetch_error:
  "(\<exists>e. tryExchange out = Inl e \<and> isFetchError e) \<longleftrightarrow> transportFailure out"
  by (auto simp: tryExchange_def transportFailure_def isFetchError_def parseResponse_def
           split: fetch_outcome.splits text_outcome.splits sum.splits)

lemma sync_retry_transport:
  assumes "Suc k < fetchCount (snd (syncWithGoogleSheet net action pl n delay))"
  shows "transportFailure (net k)"
proof -
  have "isFetchError (case tryExchange (net k) of Inl e \<Rightarrow> e | Inr _ \<Rightarrow> Error [])"
    using assms by (rule sync_retry_only)
  then have "\<exists>e. tryExchange (net k) = Inl e \<and> isFetchError e"
    by (cases "tryExchange (net k)") (auto simp: isFetchError_def)
  then show ?thesis by (simp add: tryExchange_fetch_error)
qed

lemma sync_trace_shape:
  "snd (syncWithGoogleSheet net action pl n delay) =
     concat (map (\<lambda>k. [Fetch action pl, Delay (delay * 2 ^ k)])
               [0..<fetchCount (snd (syncWithGoogleSheet net action pl n delay)) - 1])
     @ [Fetch action pl]"
proof (induction n arbitrary: net delay)
  case 0
  show ?case by (auto simp: sync_0 split: sum.splits)
next
  case (Suc n)
  show ?case
  proof (cases "tryExchange (net 0)")
    case (Inr dat)
    then show ?thesis by (simp add: sync_Suc)
  next
    case (Inl e)
    show ?thesis
    proof (cases "isFetchError e")
      case False
      with Inl show ?thesis by (simp add: sync_Suc)
    next
      case True
      obtain r evs where rec: "syncWithGoogleSheet (\<lambda>k. net (Suc k)) action pl n (delay * 2) = (r, evs)"
        by (cases "syncWithGoogleSheet (\<lambda>k. net (Suc k)) action pl n (delay * 2)")
      have pos: "0 < fetchCount evs"
        using sync_fetchCount_pos[of "\<lambda>k. net (Suc k)" action pl n "delay * 2"] rec by simp
      have ih: "evs = concat (map (\<lambda>k. [Fetch action pl, Delay (delay * 2 * 2 ^ k)])
                                 [0..<fetchCount evs - 1]) @ [Fetch action pl]"
        using Suc.IH[of "\<lambda>k. net (Suc k)" "delay * 2"] rec by simp
      have step: "concat (map (\<lambda>k. [Fetch action pl, Delay (delay * 2 ^ k)]) [0..<Suc m]) =
            Fetch action pl # Delay delay #
              concat (map (\<lambda>k. [Fetch action pl, Delay (delay * 2 * 2 ^ k)]) [0..<m])" for m
        by (simp only: map_upt_Suc) (simp add: mult.assoc)
      have "concat (map (\<lambda>k. [Fetch action pl, Delay (delay * 2 ^ k)]) [0..<fetchCount evs]) =
            Fetch action pl # Delay delay #
              concat (map (\<lambda>k. [Fetch action pl, Delay (delay * 2 * 2 ^ k)]) [0..<fetchCount evs - 1])"
        using pos step[of "fetchCount evs - 1"] by simp
      with Inl True rec ih show ?thesis by (simp add: sync_Suc)
    qed
  qed
qed

text \<open>The result is decided by the last exchange made.\<close>

lemma sync_result_last:
  "fst (syncWithGoogleSheet net action pl n delay) =
     (case tryExchange (net (fetchCount (snd (syncWithGoogleSheet net action pl n delay)) - 1)) of
        Inr dat \<Rightarrow> Inr dat
      | Inl e \<Rightarrow> if isFetchError e then Inl (Error detailedMessage) else Inl e)"
proof (induction n arbitrary: net delay)
  case 0
  show ?case by (auto simp: sync_0 split: sum.splits)
next
  case (Suc n)
  show ?case
  proof (cases "tryExchange (net 0)")
    case (Inr dat)
    then show ?thesis by (simp add: sync_Suc)
  next
    case (Inl e)
    show ?thesis
    proof (cases "isFetchError e")
      case False
      with Inl show ?thesis by (simp add: sync_Suc)
    next
      case True
      obtain r evs where rec: "syncWithGoogleSheet (\<lambda>k. net (Suc k)) action pl n (delay * 2) = (r, evs)"
        by (cases "syncWithGoogleSheet (\<lambda>k. net (Suc k)) action pl n (delay * 2)")
      have pos: "0 < fetchCount evs"
        using sync_fetchCount_pos[of "\<lambda>k. net (Suc k)" action pl n "delay * 2"] rec by simp
      have ih: "r = (case tryExchange (net (Suc (fetchCount evs - 1))) of
                       Inr dat \<Rightarrow> Inr dat
                     | Inl e \<Rightarrow> if isFetchError e then Inl (Error detailedMessage) else Inl e)"
        using Suc.IH[of "\<lambda>k. net (Suc k)" "delay * 2"] rec by simp
      have "Suc (fetchCount evs - 1) = fetchCount evs" using pos by simp
      with Inl True rec ih show ?thesis by (simp add: sync_Suc)
    qed
  qed
qed

text \<open>When every exchange of the budget is a transport failure, all of them are made.\<close>

lemma sync_exhaust:
  "(\<forall>k\<le>n. transportFailure (net k)) \<Longrightarrow>
     fetchCount (snd (syncWithGoogleSheet net action pl n delay)) = Suc n"
proof (induction n arbitrary: net delay)
  case 0
  show ?case by (auto simp: sync_0 split: sum.splits)
next
  case (Suc n)
  from Suc.prems have "transportFailure (net 0)" by blast
  then obtain e where e: "tryExchange (net 0) = Inl e" "isFetchError e"
    using tryExchange_fetch_error[of "net 0"] by blast
  have "\<forall>k\<le>n. transportFailure (net (Suc k))" using Suc.prems by auto
  from Suc.IH[of "\<lambda>k. net (Suc k)" "delay * 2", OF this] e
  show ?case by (auto simp: sync_Suc split: prod.splits)
qed

text \<open>
  C2. With the default budget (2 retries, 1000 ms), \<open>syncWithGoogleSheet\<close> makes between
  one and three exchanges; its trace is the exchanges with a delay of 1000 ms before the
  first retry and 2000 ms before the second; an exchange is followed by a retry only if it
  was a transport failure; three transport failures in a row end in the descriptive
  connectivity error; and an exchange that returns a non-2xx status, or a 2xx response
  whose body does not parse, is the last one and its error is the result.
\<close>

theorem sync_retry_policy:
  assumes run: "syncWithGoogleSheet net action pl 2 1000 = (r, evs)"
  shows "1 \<le> fetchCount evs \<and> fetchCount evs \<le> 3
    \<and> evs = concat (map (\<lambda>k. [Fetch action pl, Delay (1000 * 2 ^ k)]) [0..<fetchCount evs - 1])
              @ [Fetch action pl]
    \<and> delaysOf evs = take (fetchCount evs - 1) [1000, 2000]
    \<and> (\<forall>k. Suc k < fetchCount evs \<longrightarrow> transportFailure (net k))
    \<and> ((\<forall>k<3. transportFailure (net k)) \<longrightarrow>
          fetchCount evs = 3 \<and> r = Inl (Error detailedMessage))
    \<and> (\<forall>j status txt. j < fetchCount evs \<and> net j = FetchResponse status txt
            \<and> \<not> (200 \<le> status \<and> status \<le> 299) \<longrightarrow>
          fetchCount evs = Suc j \<and> r = Inl (Error (''HTTP error! status: '' @ string_of_nat status)))
    \<and> (\<forall>j status. j < fetchCount evs \<and> net j = FetchResponse status (TextBody ParseFailure)
            \<and> 200 \<le> status \<and> status \<le> 299 \<longrightarrow>
          fetchCount evs = Suc j \<and> r = Inl (Error msgInvalidResponse))"
proof -
  have evs: "evs = snd (syncWithGoogleSheet net action pl 2 1000)"
    and r: "r = fst (syncWithGoogleSheet net action pl 2 1000)"
    using run by simp_all
  have le: "fetchCount evs \<le> 3"
    using sync_fetchCount_le[of net action pl 2 1000] evs by simp
  have pos: "1 \<le> fetchCount evs"
    using sync_fetchCount_pos[of net action pl 2 1000] evs by simp
  have shape: "evs = concat (map (\<lambda>k. [Fetch action pl, Delay (1000 * 2 ^ k)])
                               [0..<fetchCount evs - 1]) @ [Fetch action pl]"
    using sync_trace_shape[of net action pl 2 1000] evs by simp
  have "delaysOf evs = map (\<lambda>k. 1000 * 2 ^ k) [0..<fetchCount evs - 1]"
    using sync_delays[of net action pl 2 1000] evs by simp
  moreover have "fetchCount evs = 1 \<or> fetchCount evs = 2 \<or> fetchCount evs = 3"
    using le pos by arith
  moreover have "[0..<(2::nat)] = [0, Suc 0]"
    by (simp add: numeral_2_eq_2)
  ultimately have delays: "delaysOf evs = take (fetchCount evs - 1) [1000, 2000]"
    by auto
  have only: "\<forall>k. Suc k < fetchCount evs \<longrightarrow> transportFailure (net k)"
    using sync_retry_transport[of _ net action pl 2 1000] evs by simp
  have last: "r = (case tryExchange (net (fetchCount evs - 1)) of
                     Inr dat \<Rightarrow> Inr dat
                   | Inl e \<Rightarrow> if isFetchError e then Inl (Error detailedMessage) else Inl e)"
    using sync_result_last[of net action pl 2 1000] evs r by simp
  have exhaust: "(\<forall>k<3. transportFailure (net k)) \<longrightarrow>
          fetchCount evs = 3 \<and> r = Inl (Error detailedMessage)"
  proof
    assume all: "\<forall>k<3. transportFailure (net k)"
    then have "\<forall>k\<le>2. transportFailure (net k)" by auto
    from sync_exhaust[OF this, of action pl 1000] evs have n3: "fetchCount evs = 3" by simp
    from all have "transportFailure (net 2)" by simp
    then obtain e where "tryExchange (net 2) = Inl e" "isFetchError e"
      using tryExchange_fetch_error[of "net 2"] by blast
    with last n3 show "fetchCount evs = 3 \<and> r = Inl (Error detailedMessage)" by simp
  qed
  have final: "fetchCount evs = Suc j" if "j < fetchCount evs" "\<not> transportFailure (net j)" for j
  proof (rule ccontr)
    assume "fetchCount evs \<noteq> Suc j"
    with that(1) have "Suc j < fetchCount evs" by arith
    with only that(2) show False by blast
  qed
  have http: "\<forall>j status txt. j < fetchCount evs \<and> net j = FetchResponse status txt
            \<and> \<not> (200 \<le> status \<and> status \<le> 299) \<longrightarrow>
          fetchCount evs = Suc j \<and> r = Inl (Error (''HTTP error! status: '' @ string_of_nat status))"
  proof (intro allI impI, elim conjE)
    fix j status tx
    assume j: "j < fetchCount evs" and nj: "net j = FetchResponse status tx"
      and bad: "\<not> (200 \<le> status \<and> status \<le> 299)"
    have "\<not> transportFailure (net j)" using nj bad by (auto simp: transportFailure_def)
    from final[OF j this] have n: "fetchCount evs = Suc j" .
    have "tryExchange (net j) = Inl (Error (''HTTP error! status: '' @ string_of_nat status))"
      using nj bad by (simp add: tryExchange_def)
    with last n show "fetchCount evs = Suc j \<and>
        r = Inl (Error (''HTTP error! status: '' @ string_of_nat status))"
      by (simp add: isFetchError_def)
  qed
  have parse: "\<forall>j status. j < fetchCount evs \<and> net j = FetchResponse status (TextBody ParseFailure)
            \<and> 200 \<le> status \<and> status \<le> 299 \<longrightarrow>
          fetchCount evs = Suc j \<and> r = Inl (Error msgInvalidResponse)"
  proof (intro allI impI, elim conjE)
    fix j status
    assume j: "j < fetchCount evs" and nj: "net j = FetchResponse status (TextBody ParseFailure)"
      and ok: "200 \<le> status" "status \<le> 299"
    have "\<not> transportFailure (net j)" using nj by (simp add: transportFailure_def)
    from final[OF j this] have n: "fetchCount evs = Suc j" .
    have "tryExchange (net j) = Inl (Error msgInvalidResponse)"
      using nj ok by (simp add: tryExchange_def parseResponse_def parseBody_def)
    with last n show "fetchCount evs = Suc j \<and> r = Inl (Error msgInvalidResponse)"
      by (simp add: isFetchError_def)
  qed
  from pos le shape delays only exhaust http parse show ?thesis by blast
qed

theorem sync_retry_policy_witness:
  "(let down = (\<lambda>k. FetchRejected (TypeError ''Failed to fetch''));
        flaky = (\<lambda>k. if k = 0 then FetchRejected (TypeError ''Failed to fetch'')
                      else FetchResponse 500 (TextBody ParseFailure));
        garbled = (\<lambda>k. FetchResponse 200 (TextBody ParseFailure))
    in syncWithGoogleSheet down ''read'' PEmpty 2 1000 =
         (Inl (Error detailedMessage),
          [Fetch ''read'' PEmpty, Delay 1000, Fetch ''read'' PEmpty, Delay 2000, Fetch ''read'' PEmpty])
     \<and> syncWithGoogleSheet flaky ''read'' PEmpty 2 1000 =
         (Inl (Error ''HTTP error! status: 500''),
          [Fetch ''read'' PEmpty, Delay 1000, Fetch ''read'' PEmpty])
     \<and> syncWithGoogleSheet garbled ''read'' PEmpty 2 1000 =
         (Inl (Error msgInvalidResponse), [Fetch ''read'' PEmpty]))"
proof -
  define down where "down = (\<lambda>k::nat. FetchRejected (TypeError ''Failed to fetch''))"
  define flaky where "flaky = (\<lambda>k::nat. if k = 0 then FetchRejected (TypeError ''Failed to fetch'')
                      else FetchResponse 500 (TextBody ParseFailure))"
  define garbled where "garbled = (\<lambda>k::nat. FetchResponse 200 (TextBody ParseFailure))"
  have s500: "string_of_nat 500 = ''500''" by simp
  have run1: "syncWithGoogleSheet down ''read'' PEmpty 2 1000 =
         (Inl (Error detailedMessage),
          [Fetch ''read'' PEmpty, Delay 1000, Fetch ''read'' PEmpty, Delay 2000, Fetch ''read'' PEmpty])"
    by (simp add: numeral_2_eq_2 sync_Suc sync_0 tryExchange_def isFetchError_def down_def)
  have run2: "syncWithGoogleSheet flaky ''read'' PEmpty 2 1000 =
         (Inl (Error ''HTTP error! status: 500''),
          [Fetch ''read'' PEmpty, Delay 1000, Fetch ''read'' PEmpty])"
    by (simp add: numeral_2_eq_2 sync_Suc sync_0 tryExchange_def isFetchError_def flaky_def s500)
  have run3: "syncWithGoogleSheet garbled ''read'' PEmpty 2 1000 =
         (Inl (Error msgInvalidResponse), [Fetch ''read'' PEmpty])"
    by (simp add: numeral_2_eq_2 sync_Suc sync_0 tryExchange_def isFetchError_def garbled_def
          parseResponse_def parseBody_def)
  let ?E1 = "[Fetch ''read'' PEmpty, Delay 1000, Fetch ''read'' PEmpty, Delay 2000,
              Fetch ''read'' PEmpty]"
  let ?E2 = "[Fetch ''read'' PEmpty, Delay 1000, Fetch ''read'' PEmpty]"
  let ?E3 = "[Fetch ''read'' PEmpty]"
  have tf: "\<forall>k<3. transportFailure (down k)"
    by (simp add: down_def transportFailure_def isFetchError_def)
  note exhausted = sync_retry_policy[OF run1, THEN conjunct2, THEN conjunct2, THEN conjunct2,
      THEN conjunct2, THEN conjunct2, THEN conjunct1, THEN mp, OF tf]
  have h2: "1 < fetchCount ?E2 \<and> flaky 1 = FetchResponse 500 (TextBody ParseFailure)
              \<and> \<not> (200 \<le> (500::nat) \<and> (500::nat) \<le> 299)"
    by (simp add: flaky_def)
  note http = sync_retry_policy[OF run2, THEN conjunct2, THEN conjunct2, THEN conjunct2,
      THEN conjunct2, THEN conjunct2, THEN conjunct2, THEN conjunct1, rule_format, OF h2]
  have h3: "0 < fetchCount ?E3 \<and> garbled 0 = FetchResponse 200 (TextBody ParseFailure)
              \<and> 200 \<le> (200::nat) \<and> (200::nat) \<le> 299"
    by (simp add: garbled_def)
  note unparsable = sync_retry_policy[OF run3, THEN conjunct2, THEN conjunct2, THEN conjunct2,
      THEN conjunct2, THEN conjunct2, THEN conjunct2, THEN conjunct2, rule_format, OF h3]
  have a: "Inl (Error detailedMessage) = (Inl (Error detailedMessage) :: js_error + Document list option)"
    using exhausted by (rule conjunct2)
  have b: "fetchCount ?E2 = Suc 1" using http by (rule conjunct1)
  have c: "fetchCount ?E3 = Suc 0" using unparsable by (rule conjunct1)
  from a b c show ?thesis
    unfolding Let_def down_def[symmetric] flaky_def[symmetric] garbled_def[symmetric]
    using run1 run2 run3 by blast
qed

text \<open>
  C3 (defect in the code). For a response whose body has \<open>success === false\<close> the inner
  block builds an error from the server's message, but the \<open>catch\<close> around that block
  replaces it: the error that leaves \<open>syncWithGoogleSheet\<close> always carries the generic
  "invalid response" message, never the server's.
\<close>

theorem sync_success_false_message:
  "parseBody (JsonValue True (Some ''Document not found'') dat) = Inl (Error ''Document not found'')
   \<and> parseResponse (JsonValue True err dat) = Inl (Error msgInvalidResponse)
   \<and> syncWithGoogleSheet (\<lambda>k. FetchResponse 200 (TextBody (JsonValue True err dat)))
        action pl retries delay = (Inl (Error msgInvalidResponse), [Fetch action pl])
   \<and> msgInvalidResponse \<noteq> ''Document not found''"
proof -
  have "parseResponse (JsonValue True err dat) = Inl (Error msgInvalidResponse)"
    by (simp add: parseResponse_def parseBody_def)
  moreover from this
  have "syncWithGoogleSheet (\<lambda>k. FetchResponse 200 (TextBody (JsonValue True err dat)))
        action pl retries delay = (Inl (Error msgInvalidResponse), [Fetch action pl])"
    by (subst syncWithGoogleSheet.simps) (simp add: tryExchange_def isFetchError_def)
  ultimately show ?thesis
    by (simp add: parseBody_def msgInvalidResponse_def)
qed

section \<open>Rendering and saving leave the collection alone\<close>

lemma renderResultsTable_frame:
  "documents (renderResultsTable h docs title s) = documents s"
  "localStorage (renderResultsTable h docs title s) = localStorage s"
  "trace (renderResultsTable h docs title s) = trace s"
  "toasts (renderResultsTable h docs title s) = toasts s"
  "editAttachment (renderResultsTable h docs title s) = editAttachment s"
  "editFormErrors (renderResultsTable h docs title s) = editFormErrors s"
  "editModalVisible (renderResultsTable h docs title s) = editModalVisible s"
  by (simp_all add: renderResultsTable_def Let_def)

lemma renderRecentDocuments_frame:
  "documents (renderRecentDocuments h s) = documents s"
  "localStorage (renderRecentDocuments h s) = localStorage s"
  "trace (renderRecentDocuments h s) = trace s"
  "toasts (renderRecentDocuments h s) = toasts s"
  "editAttachment (renderRecentDocuments h s) = editAttachment s"
  "editFormErrors (renderRecentDocuments h s) = editFormErrors s"
  "editModalVisible (renderRecentDocuments h s) = editModalVisible s"
  by (simp_all add: renderRecentDocuments_def Let_def renderResultsTable_frame)

lemma handleSearch_frame:
  "documents (snd (handleSearch h s)) = documents s"
  "localStorage (snd (handleSearch h s)) = localStorage s"
  "trace (snd (handleSearch h s)) = trace s"
  "toasts (snd (handleSearch h s)) = toasts s"
  "editAttachment (snd (handleSearch h s)) = editAttachment s"
  "editFormErrors (snd (handleSearch h s)) = editFormErrors s"
  "editModalVisible (snd (handleSearch h s)) = editModalVisible s"
  by (simp_all add: handleSearch_def Let_def renderResultsTable_frame renderRecentDocuments_frame
        split: sum.splits)

lemma saveDocuments_effect:
  "documents (snd (saveDocuments h s)) = documents s"
  "localStorage (snd (saveDocuments h s)) = Some (documents s)"
  "trace (snd (saveDocuments h s)) = trace s @ [SetItem (documents s)]"
  "toasts (snd (saveDocuments h s)) = toasts s"
  "editAttachment (snd (saveDocuments h s)) = editAttachment s"
  "editFormErrors (snd (saveDocuments h s)) = editFormErrors s"
  "editModalVisible (snd (saveDocuments h s)) = editModalVisible s"
  by (simp_all add: saveDocuments_def Let_def handleSearch_frame renderRecentDocuments_frame)

lemma cacheWrites_append: "cacheWrites (xs @ ys) = cacheWrites xs @ cacheWrites ys"
  by (induction xs rule: cacheWrites.induct) simp_all

lemma sync_no_cache_write:
  "cacheWrites (snd (syncWithGoogleSheet net action pl n delay)) = []"
proof (induction n arbitrary: net delay)
  case 0
  show ?case by (auto simp: sync_0 split: sum.splits)
next
  case (Suc n)
  show ?case
    using Suc.IH[of "\<lambda>k. net (Suc k)" "delay * 2"]
    by (auto simp: sync_Suc split: sum.splits prod.splits)
qed

section \<open>Delete\<close>

text \<open>The ways \<open>handleDeleteDocument\<close> ends.\<close>

lemma delete_absent:
  "find (\<lambda>d. doc_id d = Some docId) (documents s) = None \<Longrightarrow>
     handleDeleteDocument h net confirmed docId s = s"
  by (simp add: handleDeleteDocument_def)

lemma delete_declined:
  "handleDeleteDocument h net False docId s = s"
  by (simp add: handleDeleteDocument_def split: option.splits)

lemma delete_failed:
  assumes "find (\<lambda>d. doc_id d = Some docId) (documents s) = Some doc"
    and "syncWithGoogleSheet net ''delete'' (PId docId) 2 1000 = (Inl e, evs)"
  shows "handleDeleteDocument h net True docId s =
           showToast (message e) ErrorToast (s\<lparr>trace := trace s @ evs\<rparr>)"
  using assms by (simp add: handleDeleteDocument_def)

lemma delete_committed:
  assumes "find (\<lambda>d. doc_id d = Some docId) (documents s) = Some doc"
    and "syncWithGoogleSheet net ''delete'' (PId docId) 2 1000 = (Inr dat, evs)"
  shows "documents (handleDeleteDocument h net True docId s) =
           filter (\<lambda>d. doc_id d \<noteq> Some docId) (documents s)"
    and "localStorage (handleDeleteDocument h net True docId s) =
           Some (filter (\<lambda>d. doc_id d \<noteq> Some docId) (documents s))"
    and "trace (handleDeleteDocument h net True docId s) =
           trace s @ evs @ [SetItem (filter (\<lambda>d. doc_id d \<noteq> Some docId) (documents s))]"
proof -
  let ?s1 = "s\<lparr>documents := filter (\<lambda>d. doc_id d \<noteq> Some docId) (documents s),
               trace := trace s @ evs\<rparr>"
  obtain err s2 where sv: "saveDocuments h ?s1 = (err, s2)"
    by (cases "saveDocuments h ?s1")
  have s2: "documents s2 = documents ?s1" "localStorage s2 = Some (documents ?s1)"
    "trace s2 = trace ?s1 @ [SetItem (documents ?s1)]"
    using saveDocuments_effect(1-3)[of h ?s1] sv by simp_all
  have res: "handleDeleteDocument h net True docId s =
          (case err of Some error \<Rightarrow> showToast (message error) ErrorToast s2
           | None \<Rightarrow> showToast msgDeleted SuccessToast s2)"
    using assms sv by (simp add: handleDeleteDocument_def split: option.splits)
  show "documents (handleDeleteDocument h net True docId s) =
           filter (\<lambda>d. doc_id d \<noteq> Some docId) (documents s)"
    using s2 by (simp add: res showToast_def split: option.splits)
  show "localStorage (handleDeleteDocument h net True docId s) =
           Some (filter (\<lambda>d. doc_id d \<noteq> Some docId) (documents s))"
    using s2 by (simp add: res showToast_def split: option.splits)
  show "trace (handleDeleteDocument h net True docId s) =
           trace s @ evs @ [SetItem (filter (\<lambda>d. doc_id d \<noteq> Some docId) (documents s))]"
    using s2 by (simp add: res showToast_def split: option.splits)
qed

text \<open>
  C1. Delete is remote-first. When the remote call of a delete fails, the in-memory
  collection (so also its length) and the cached collection are what they were and
  nothing is written to the cache; whenever a delete changes the collection or the cache,
  the remote call has succeeded; and when the remote call succeeds for a confirmed delete
  of a document in the collection, the entry is removed and the new collection is written
  to the cache after the exchange.
\<close>

theorem delete_remote_first:
  assumes run: "syncWithGoogleSheet net ''delete'' (PId docId) 2 1000 = (r, evs)"
    and after: "s' = handleDeleteDocument h net confirmed docId s"
  shows "((\<exists>e. r = Inl e) \<longrightarrow>
            documents s' = documents s \<and> length (documents s') = length (documents s)
            \<and> localStorage s' = localStorage s
            \<and> cacheWrites (trace s') = cacheWrites (trace s))
    \<and> (documents s' \<noteq> documents s \<or> localStorage s' \<noteq> localStorage s
          \<or> cacheWrites (trace s') \<noteq> cacheWrites (trace s) \<longrightarrow> (\<exists>dat. r = Inr dat))
    \<and> ((\<exists>dat. r = Inr dat) \<and> confirmed \<and> (\<exists>d \<in> set (documents s). doc_id d = Some docId) \<longrightarrow>
          documents s' = filter (\<lambda>d. doc_id d \<noteq> Some docId) (documents s)
          \<and> localStorage s' = Some (documents s')
          \<and> trace s' = trace s @ evs @ [SetItem (documents s')])"
proof -
  have nocw: "cacheWrites evs = []"
    using sync_no_cache_write[of net "''delete''" "PId docId" 2 1000] run by simp
  have failed: "documents s' = documents s \<and> length (documents s') = length (documents s)
            \<and> localStorage s' = localStorage s
            \<and> cacheWrites (trace s') = cacheWrites (trace s)" if "r = Inl e" for e
  proof (cases "find (\<lambda>d. doc_id d = Some docId) (documents s)")
    case None
    then show ?thesis using after by (simp add: delete_absent)
  next
    case (Some doc)
    show ?thesis
    proof (cases confirmed)
      case False
      then show ?thesis using after by (simp add: delete_declined)
    next
      case True
      with delete_failed[OF Some, of net e evs h] run that after nocw
      show ?thesis by (simp add: showToast_def cacheWrites_append)
    qed
  qed
  have committed: "documents s' = filter (\<lambda>d. doc_id d \<noteq> Some docId) (documents s)
          \<and> localStorage s' = Some (documents s')
          \<and> trace s' = trace s @ evs @ [SetItem (documents s')]"
    if "r = Inr dat" confirmed "\<exists>d \<in> set (documents s). doc_id d = Some docId" for dat
  proof -
    from that(3) obtain doc where "find (\<lambda>d. doc_id d = Some docId) (documents s) = Some doc"
      by (cases "find (\<lambda>d. doc_id d = Some docId) (documents s)") (auto simp: find_None_iff)
    from delete_committed[OF this, of net dat evs h] run that(1,2) after
    show ?thesis by simp
  qed
  have only: "\<exists>dat. r = Inr dat"
    if "documents s' \<noteq> documents s \<or> localStorage s' \<noteq> localStorage s
          \<or> cacheWrites (trace s') \<noteq> cacheWrites (trace s)"
  proof (cases r)
    case (Inl e)
    with failed[OF Inl] that show ?thesis by simp
  next
    case (Inr dat)
    then show ?thesis by blast
  qed
  from failed committed only show ?thesis by blast
qed

theorem delete_remote_first_witness:
  "documents (handleDeleteDocument sampleHost netDown True ''doc_1700000000001''
                (initialState [docA, docB])) = [docA, docB]
   \<and> localStorage (handleDeleteDocument sampleHost netDown True ''doc_1700000000001''
                (initialState [docA, docB])) = Some [docA, docB]
   \<and> cacheWrites (trace (handleDeleteDocument sampleHost netDown True ''doc_1700000000001''
                (initialState [docA, docB]))) = []
   \<and> documents (handleDeleteDocument sampleHost netOk True ''doc_1700000000001''
                (initialState [docA, docB])) = [docB]
   \<and> localStorage (handleDeleteDocument sampleHost netOk True ''doc_1700000000001''
                (initialState [docA, docB])) = Some [docB]"
proof -
  have run1: "syncWithGoogleSheet netDown ''delete'' (PId ''doc_1700000000001'') 2 1000 =
         (Inl (Error detailedMessage),
          [Fetch ''delete'' (PId ''doc_1700000000001''), Delay 1000,
           Fetch ''delete'' (PId ''doc_1700000000001''), Delay 2000,
           Fetch ''delete'' (PId ''doc_1700000000001'')])"
    by (simp add: numeral_2_eq_2 sync_Suc sync_0 tryExchange_def isFetchError_def netDown_def)
  have run2: "syncWithGoogleSheet netOk ''delete'' (PId ''doc_1700000000001'') 2 1000 =
         (Inr None, [Fetch ''delete'' (PId ''doc_1700000000001'')])"
    by (simp add: numeral_2_eq_2 sync_Suc tryExchange_def netOk_def parseResponse_def parseBody_def)
  have ids: "doc_id docA = Some ''doc_1700000000001''" "doc_id docB = Some ''doc_1700000000002''"
    by (simp_all add: docA_def docB_def sampleDoc_def)
  have init: "documents (initialState [docA, docB]) = [docA, docB]"
    "localStorage (initialState [docA, docB]) = Some [docA, docB]"
    "trace (initialState [docA, docB]) = []"
    by (simp_all add: initialState_def)
  from delete_remote_first[OF run1 refl, of sampleHost True "initialState [docA, docB]"]
  have down: "documents (handleDeleteDocument sampleHost netDown True ''doc_1700000000001''
                (initialState [docA, docB])) = [docA, docB]
   \<and> localStorage (handleDeleteDocument sampleHost netDown True ''doc_1700000000001''
                (initialState [docA, docB])) = Some [docA, docB]
   \<and> cacheWrites (trace (handleDeleteDocument sampleHost netDown True ''doc_1700000000001''
                (initialState [docA, docB]))) = []"
    by (simp add: init)
  from delete_remote_first[OF run2 refl, of sampleHost True "initialState [docA, docB]"]
  have ok: "documents (handleDeleteDocument sampleHost netOk True ''doc_1700000000001''
                (initialState [docA, docB])) = [docB]
   \<and> localStorage (handleDeleteDocument sampleHost netOk True ''doc_1700000000001''
                (initialState [docA, docB])) = Some [docB]"
    by (simp add: init ids)
  from down ok show ?thesis by blast
qed

section \<open>Update\<close>

lemma findIndex_None_iff: "findIndex p xs = None \<longleftrightarrow> (\<forall>x \<in> set xs. \<not> p x)"
  by (induction xs) auto

lemma findIndex_Some:
  "findIndex p xs = Some i \<Longrightarrow> i < length xs \<and> p (xs ! i)"
  by (induction xs arbitrary: i) (auto split: if_splits)

lemma updatedDocData_keeps:
  "doc_id (updatedDocData d form nf) = doc_id d"
  "createdAt (updatedDocData d form nf) = createdAt d"
  "tags (updatedDocData d form nf) = tags d"
  by (simp_all add: updatedDocData_def Let_def split: option.splits)

lemma updatedDocData_no_file:
  "fileName (updatedDocData d form None) = fileName d"
  "fileContent (updatedDocData d form None) = fileContent d"
  "fileType (updatedDocData d form None) = fileType d"
  by (simp_all add: updatedDocData_def Let_def)

lemma updatedDocData_file:
  "fileName (updatedDocData d form (Some (f, c))) = Some (file_name f)"
  "fileContent (updatedDocData d form (Some (f, c))) = Some c"
  "fileType (updatedDocData d form (Some (f, c))) = Some (file_type f)"
  by (simp_all add: updatedDocData_def Let_def)

lemma updatedDocData_form:
  "docNumber (updatedDocData d form nf) = Some (edit_docNumber form)"
  "docDate (updatedDocData d form nf) = Some (trim (edit_docDate form))"
  "source (updatedDocData d form nf) = Some (edit_source form)"
  "subject (updatedDocData d form nf) = Some (edit_subject form)"
  "doc_notes (updatedDocData d form nf) = Some (edit_notes form)"
  by (simp_all add: updatedDocData_def Let_def split: option.splits)

lemma commitUpdate_failed:
  assumes "syncWithGoogleSheet net ''update'' (PDocument upd) 2 1000 = (Inl e, evs)"
  shows "commitUpdate h net i upd s = showToast (message e) ErrorToast (s\<lparr>trace := trace s @ evs\<rparr>)"
  using assms by (simp add: commitUpdate_def)

lemma commitUpdate_committed:
  assumes "syncWithGoogleSheet net ''update'' (PDocument upd) 2 1000 = (Inr dat, evs)"
  shows "documents (commitUpdate h net i upd s) = (documents s)[i := upd]"
    and "localStorage (commitUpdate h net i upd s) = Some ((documents s)[i := upd])"
    and "trace (commitUpdate h net i upd s) = trace s @ evs @ [SetItem ((documents s)[i := upd])]"
proof -
  let ?s1 = "s\<lparr>documents := (documents s)[i := upd], trace := trace s @ evs\<rparr>"
  obtain err s2 where sv: "saveDocuments h ?s1 = (err, s2)"
    by (cases "saveDocuments h ?s1")
  have s2: "documents s2 = documents ?s1" "localStorage s2 = Some (documents ?s1)"
    "trace s2 = trace ?s1 @ [SetItem (documents ?s1)]"
    using saveDocuments_effect(1-3)[of h ?s1] sv by simp_all
  have res: "commitUpdate h net i upd s =
          (case err of Some error \<Rightarrow> showToast (message error) ErrorToast s2
           | None \<Rightarrow> showToast msgUpdated SuccessToast
                 (s2\<lparr>editModalVisible := False,
                     editAttachment := (editAttachment s2)\<lparr>files := None\<rparr>\<rparr>))"
    using assms sv by (simp add: commitUpdate_def split: option.splits)
  show "documents (commitUpdate h net i upd s) = (documents s)[i := upd]"
    using s2 by (simp add: res showToast_def split: option.splits)
  show "localStorage (commitUpdate h net i upd s) = Some ((documents s)[i := upd])"
    using s2 by (simp add: res showToast_def split: option.splits)
  show "trace (commitUpdate h net i upd s) = trace s @ evs @ [SetItem ((documents s)[i := upd])]"
    using s2 by (simp add: res showToast_def split: option.splits)
qed

lemma commitUpdate_documents:
  "documents (commitUpdate h net i upd s) = documents s
   \<or> documents (commitUpdate h net i upd s) = (documents s)[i := upd]"
proof (cases "syncWithGoogleSheet net ''update'' (PDocument upd) 2 1000")
  case (Pair r evs)
  show ?thesis
  proof (cases r)
    case (Inl e)
    with Pair show ?thesis by (simp add: commitUpdate_failed showToast_def)
  next
    case (Inr dat)
    with Pair show ?thesis by (simp add: commitUpdate_committed)
  qed
qed

text \<open>The state \<open>handleUpdateDocument\<close> validates and looks the document up in.\<close>

lemma update_cases:
  "documents (handleUpdateDocument h net form s) = documents s
   \<or> (\<exists>i nf. findIndex (\<lambda>d. doc_id d = Some (edit_docId form)) (documents s) = Some i
          \<and> (files (editAttachment s) = None \<longrightarrow> nf = None)
          \<and> documents (handleUpdateDocument h net form s) =
              (documents s)[i := updatedDocData (documents s ! i) form nf])"
proof -
  let ?s0 = "s\<lparr>editFormErrors := validateEditForm form,
               editAttachment := (editAttachment s)\<lparr>errorText := [], invalid := False\<rparr>\<rparr>"
  have d0: "documents ?s0 = documents s" by simp
  show ?thesis
  proof (cases "validateEditForm form = []")
    case False
    then show ?thesis by (simp add: handleUpdateDocument_def Let_def)
  next
    case valid: True
    show ?thesis
    proof (cases "findIndex (\<lambda>d. doc_id d = Some (edit_docId form)) (documents s)")
      case None
      with valid show ?thesis by (simp add: handleUpdateDocument_def Let_def)
    next
      case (Some i)
      show ?thesis
      proof (cases "files (editAttachment s)")
        case None
        with valid Some have "handleUpdateDocument h net form s =
            commitUpdate h net i (updatedDocData (documents s ! i) form None) ?s0"
          by (simp add: handleUpdateDocument_def Let_def)
        with commitUpdate_documents[of h net i "updatedDocData (documents s ! i) form None" ?s0]
          Some None show ?thesis by auto
      next
        case chosen: (Some f)
        show ?thesis
        proof (cases "file_base64 f")
          case None
          with valid Some chosen show ?thesis by (simp add: handleUpdateDocument_def Let_def)
        next
          case (Some c)
          with valid \<open>findIndex _ _ = Some i\<close> chosen have "handleUpdateDocument h net form s =
              commitUpdate h net i (updatedDocData (documents s ! i) form (Some (f, c))) ?s0"
            by (simp add: handleUpdateDocument_def Let_def)
          with commitUpdate_documents[of h net i "updatedDocData (documents s ! i) form (Some (f, c))" ?s0]
            \<open>findIndex _ _ = Some i\<close> chosen show ?thesis by auto
        qed
      qed
    qed
  qed
qed

lemma update_committed:
  assumes valid: "validateEditForm form = []"
    and found: "findIndex (\<lambda>d. doc_id d = Some (edit_docId form)) (documents s) = Some i"
    and nofile: "files (editAttachment s) = None"
    and run: "syncWithGoogleSheet net ''update''
                (PDocument (updatedDocData (documents s ! i) form None)) 2 1000 = (Inr dat, evs)"
  shows "documents (handleUpdateDocument h net form s) =
           (documents s)[i := updatedDocData (documents s ! i) form None]"
proof -
  let ?s0 = "s\<lparr>editFormErrors := validateEditForm form,
               editAttachment := (editAttachment s)\<lparr>errorText := [], invalid := False\<rparr>\<rparr>"
  from valid found nofile have "handleUpdateDocument h net form s =
            commitUpdate h net i (updatedDocData (documents s ! i) form None) ?s0"
    by (simp add: handleUpdateDocument_def Let_def)
  with commitUpdate_committed(1)[OF run, of h i ?s0] show ?thesis by simp
qed

lemma update_committed_file:
  assumes valid: "validateEditForm form = []"
    and found: "findIndex (\<lambda>d. doc_id d = Some (edit_docId form)) (documents s) = Some i"
    and chosen: "files (editAttachment s) = Some f" "file_base64 f = Some c"
    and run: "syncWithGoogleSheet net ''update''
                (PDocument (updatedDocData (documents s ! i) form (Some (f, c)))) 2 1000 = (Inr dat, evs)"
  shows "documents (handleUpdateDocument h net form s) =
           (documents s)[i := updatedDocData (documents s ! i) form (Some (f, c))]"
proof -
  let ?s0 = "s\<lparr>editFormErrors := validateEditForm form,
               editAttachment := (editAttachment s)\<lparr>errorText := [], invalid := False\<rparr>\<rparr>"
  from valid found chosen have "handleUpdateDocument h net form s =
            commitUpdate h net i (updatedDocData (documents s ! i) form (Some (f, c))) ?s0"
    by (simp add: handleUpdateDocument_def Let_def)
  with commitUpdate_committed(1)[OF run, of h i ?s0] show ?thesis by simp
qed

lemma update_entry:
  assumes after: "s' = handleUpdateDocument h net form s"
  shows "length (documents s') = length (documents s)"
    and "j < length (documents s) \<Longrightarrow>
           documents s' ! j = documents s ! j
           \<or> (\<exists>nf. (files (editAttachment s) = None \<longrightarrow> nf = None)
                  \<and> documents s' ! j = updatedDocData (documents s ! j) form nf)"
proof -
  have shape: "documents s' = documents s
   \<or> (\<exists>i nf. findIndex (\<lambda>d. doc_id d = Some (edit_docId form)) (documents s) = Some i
          \<and> (files (editAttachment s) = None \<longrightarrow> nf = None)
          \<and> documents s' = (documents s)[i := updatedDocData (documents s ! i) form nf])"
    unfolding after by (rule update_cases)
  from shape show "length (documents s') = length (documents s)"
  proof (elim disjE exE conjE)
    assume "documents s' = documents s"
    then show ?thesis by simp
  next
    fix i nf
    assume "documents s' = (documents s)[i := updatedDocData (documents s ! i) form nf]"
    then show ?thesis by simp
  qed
  assume j: "j < length (documents s)"
  from shape show "documents s' ! j = documents s ! j
           \<or> (\<exists>nf. (files (editAttachment s) = None \<longrightarrow> nf = None)
                  \<and> documents s' ! j = updatedDocData (documents s ! j) form nf)"
  proof (elim disjE exE conjE)
    assume "documents s' = documents s"
    then show ?thesis by simp
  next
    fix i nf
    assume nf: "files (editAttachment s) = None \<longrightarrow> nf = None"
      and d: "documents s' = (documents s)[i := updatedDocData (documents s ! i) form nf]"
    show ?thesis
    proof (cases "j = i")
      case True
      with j d have e: "documents s' ! j = updatedDocData (documents s ! j) form nf" by simp
      show ?thesis
        by (rule disjI2, rule exI[of _ nf], rule conjI, rule nf, rule e)
    next
      case False
      with d have "documents s' ! j = documents s ! j" by simp
      then show ?thesis by (rule disjI1)
    qed
  qed
qed

text \<open>
  C4 (as amended). An update never changes the length of the collection nor any
  document's \<open>id\<close>, \<open>createdAt\<close> or \<open>tags\<close>, and without a newly chosen file it
  never changes any document's attachment (\<open>fileName\<close>, \<open>fileContent\<close>,
  \<open>fileType\<close>). When the form is valid, the document is found and the remote call
  succeeds, the entry is replaced in place, with or without a newly chosen file:
  \<open>docNumber\<close>, \<open>source\<close>, \<open>subject\<close> and \<open>notes\<close> are the form's values and
  \<open>docDate\<close> is the form's date with surrounding white space removed; a chosen file
  that was read becomes the attachment.
\<close>

theorem update_preserves_identity:
  assumes after: "s' = handleUpdateDocument h net form s"
  shows "length (documents s') = length (documents s)
    \<and> (\<forall>j < length (documents s).
          doc_id (documents s' ! j) = doc_id (documents s ! j)
          \<and> createdAt (documents s' ! j) = createdAt (documents s ! j)
          \<and> tags (documents s' ! j) = tags (documents s ! j))
    \<and> (files (editAttachment s) = None \<longrightarrow>
         (\<forall>j < length (documents s).
            fileName (documents s' ! j) = fileName (documents s ! j)
            \<and> fileContent (documents s' ! j) = fileContent (documents s ! j)
            \<and> fileType (documents s' ! j) = fileType (documents s ! j)))
    \<and> (\<forall>i dat evs.
          validateEditForm form = []
          \<and> findIndex (\<lambda>d. doc_id d = Some (edit_docId form)) (documents s) = Some i
          \<and> files (editAttachment s) = None
          \<and> syncWithGoogleSheet net ''update''
                (PDocument (updatedDocData (documents s ! i) form None)) 2 1000 = (Inr dat, evs)
          \<longrightarrow> documents s' = (documents s)[i := updatedDocData (documents s ! i) form None]
              \<and> docNumber (documents s' ! i) = Some (edit_docNumber form)
              \<and> docDate (documents s' ! i) = Some (trim (edit_docDate form))
              \<and> source (documents s' ! i) = Some (edit_source form)
              \<and> subject (documents s' ! i) = Some (edit_subject form)
              \<and> doc_notes (documents s' ! i) = Some (edit_notes form))
    \<and> (\<forall>i f c dat evs.
          validateEditForm form = []
          \<and> findIndex (\<lambda>d. doc_id d = Some (edit_docId form)) (documents s) = Some i
          \<and> files (editAttachment s) = Some f \<and> file_base64 f = Some c
          \<and> syncWithGoogleSheet net ''update''
                (PDocument (updatedDocData (documents s ! i) form (Some (f, c)))) 2 1000 = (Inr dat, evs)
          \<longrightarrow> documents s' = (documents s)[i := updatedDocData (documents s ! i) form (Some (f, c))]
              \<and> docNumber (documents s' ! i) = Some (edit_docNumber form)
              \<and> docDate (documents s' ! i) = Some (trim (edit_docDate form))
              \<and> source (documents s' ! i) = Some (edit_source form)
              \<and> subject (documents s' ! i) = Some (edit_subject form)
              \<and> doc_notes (documents s' ! i) = Some (edit_notes form)
              \<and> fileName (documents s' ! i) = Some (file_name f)
              \<and> fileContent (documents s' ! i) = Some c
              \<and> fileType (documents s' ! i) = Some (file_type f))"
proof -
  have len: "length (documents s') = length (documents s)"
    using after by (rule update_entry(1))
  have keep: "\<forall>j < length (documents s).
          doc_id (documents s' ! j) = doc_id (documents s ! j)
          \<and> createdAt (documents s' ! j) = createdAt (documents s ! j)
          \<and> tags (documents s' ! j) = tags (documents s ! j)"
  proof (intro allI impI)
    fix j assume j: "j < length (documents s)"
    from update_entry(2)[OF after j]
    show "doc_id (documents s' ! j) = doc_id (documents s ! j)
          \<and> createdAt (documents s' ! j) = createdAt (documents s ! j)
          \<and> tags (documents s' ! j) = tags (documents s ! j)"
    proof (elim disjE exE conjE)
      assume "documents s' ! j = documents s ! j"
      then show ?thesis by simp
    next
      fix nf assume "documents s' ! j = updatedDocData (documents s ! j) form nf"
      then show ?thesis by (simp add: updatedDocData_keeps)
    qed
  qed
  have att: "files (editAttachment s) = None \<longrightarrow>
         (\<forall>j < length (documents s).
            fileName (documents s' ! j) = fileName (documents s ! j)
            \<and> fileContent (documents s' ! j) = fileContent (documents s ! j)
            \<and> fileType (documents s' ! j) = fileType (documents s ! j))"
  proof (intro allI impI)
    fix j assume none: "files (editAttachment s) = None" and j: "j < length (documents s)"
    from update_entry(2)[OF after j]
    show "fileName (documents s' ! j) = fileName (documents s ! j)
            \<and> fileContent (documents s' ! j) = fileContent (documents s ! j)
            \<and> fileType (documents s' ! j) = fileType (documents s ! j)"
    proof (elim disjE exE conjE)
      assume "documents s' ! j = documents s ! j"
      then show ?thesis by simp
    next
      fix nf assume "files (editAttachment s) = None \<longrightarrow> nf = None"
        and e: "documents s' ! j = updatedDocData (documents s ! j) form nf"
      with none have "nf = None" by simp
      with e show ?thesis by (simp add: updatedDocData_no_file)
    qed
  qed
  have nofile: "\<forall>i dat evs.
          validateEditForm form = []
          \<and> findIndex (\<lambda>d. doc_id d = Some (edit_docId form)) (documents s) = Some i
          \<and> files (editAttachment s) = None
          \<and> syncWithGoogleSheet net ''update''
                (PDocument (updatedDocData (documents s ! i) form None)) 2 1000 = (Inr dat, evs)
          \<longrightarrow> documents s' = (documents s)[i := updatedDocData (documents s ! i) form None]
              \<and> docNumber (documents s' ! i) = Some (edit_docNumber form)
              \<and> docDate (documents s' ! i) = Some (trim (edit_docDate form))
              \<and> source (documents s' ! i) = Some (edit_source form)
              \<and> subject (documents s' ! i) = Some (edit_subject form)
              \<and> doc_notes (documents s' ! i) = Some (edit_notes form)"
  proof (intro allI impI, elim conjE)
    fix i dat evs
    assume a: "validateEditForm form = []"
      "findIndex (\<lambda>d. doc_id d = Some (edit_docId form)) (documents s) = Some i"
      "files (editAttachment s) = None"
      "syncWithGoogleSheet net ''update''
                (PDocument (updatedDocData (documents s ! i) form None)) 2 1000 = (Inr dat, evs)"
    from findIndex_Some[OF a(2)] have i: "i < length (documents s)" by simp
    have d: "documents s' = (documents s)[i := updatedDocData (documents s ! i) form None]"
      unfolding after by (rule update_committed[OF a])
    have e: "documents s' ! i = updatedDocData (documents s ! i) form None"
      unfolding d using i by simp
    show "documents s' = (documents s)[i := updatedDocData (documents s ! i) form None]
              \<and> docNumber (documents s' ! i) = Some (edit_docNumber form)
              \<and> docDate (documents s' ! i) = Some (trim (edit_docDate form))
              \<and> source (documents s' ! i) = Some (edit_source form)
              \<and> subject (documents s' ! i) = Some (edit_subject form)
              \<and> doc_notes (documents s' ! i) = Some (edit_notes form)"
      unfolding e using d by (simp add: updatedDocData_form)
  qed
  have withfile: "\<forall>i f c dat evs.
          validateEditForm form = []
          \<and> findIndex (\<lambda>d. doc_id d = Some (edit_docId form)) (documents s) = Some i
          \<and> files (editAttachment s) = Some f \<and> file_base64 f = Some c
          \<and> syncWithGoogleSheet net ''update''
                (PDocument (updatedDocData (documents s ! i) form (Some (f, c)))) 2 1000 = (Inr dat, evs)
          \<longrightarrow> documents s' = (documents s)[i := updatedDocData (documents s ! i) form (Some (f, c))]
              \<and> docNumber (documents s' ! i) = Some (edit_docNumber form)
              \<and> docDate (documents s' ! i) = Some (trim (edit_docDate form))
              \<and> source (documents s' ! i) = Some (edit_source form)
              \<and> subject (documents s' ! i) = Some (edit_subject form)
              \<and> doc_notes (documents s' ! i) = Some (edit_notes form)
              \<and> fileName (documents s' ! i) = Some (file_name f)
              \<and> fileContent (documents s' ! i) = Some c
              \<and> fileType (documents s' ! i) = Some (file_type f)"
  proof (intro allI impI, elim conjE)
    fix i f c dat evs
    assume a: "validateEditForm form = []"
      "findIndex (\<lambda>d. doc_id d = Some (edit_docId form)) (documents s) = Some i"
      "files (editAttachment s) = Some f" "file_base64 f = Some c"
      "syncWithGoogleSheet net ''update''
                (PDocument (updatedDocData (documents s ! i) form (Some (f, c)))) 2 1000 = (Inr dat, evs)"
    from findIndex_Some[OF a(2)] have i: "i < length (documents s)" by simp
    have d: "documents s' = (documents s)[i := updatedDocData (documents s ! i) form (Some (f, c))]"
      unfolding after by (rule update_committed_file[OF a])
    have e: "documents s' ! i = updatedDocData (documents s ! i) form (Some (f, c))"
      unfolding d using i by simp
    show "documents s' = (documents s)[i := updatedDocData (documents s ! i) form (Some (f, c))]
              \<and> docNumber (documents s' ! i) = Some (edit_docNumber form)
              \<and> docDate (documents s' ! i) = Some (trim (edit_docDate form))
              \<and> source (documents s' ! i) = Some (edit_source form)
              \<and> subject (documents s' ! i) = Some (edit_subject form)
              \<and> doc_notes (documents s' ! i) = Some (edit_notes form)
              \<and> fileName (documents s' ! i) = Some (file_name f)
              \<and> fileContent (documents s' ! i) = Some c
              \<and> fileType (documents s' ! i) = Some (file_type f)"
      unfolding e using d by (simp add: updatedDocData_form updatedDocData_file)
  qed
  show ?thesis
    apply (intro conjI)
        apply (rule len)
       apply (rule keep)
      apply (rule att)
     apply (rule nofile)
    apply (rule withfile)
    done
qed

theorem update_preserves_identity_witness:
  "doc_id (documents (handleUpdateDocument sampleHost netOk sampleForm
                        (initialState [docA, docB])) ! 0) = Some ''doc_1700000000001''
   \<and> createdAt (documents (handleUpdateDocument sampleHost netOk sampleForm
                        (initialState [docA, docB])) ! 0) = Some ''2023-11-14T22:13:20.001Z''
   \<and> fileName (documents (handleUpdateDocument sampleHost netOk sampleForm
                        (initialState [docA, docB])) ! 0) = None
   \<and> docNumber (documents (handleUpdateDocument sampleHost netOk sampleForm
                        (initialState [docA, docB])) ! 0) = Some ''MCU 8001/13''
   \<and> docDate (documents (handleUpdateDocument sampleHost netOk sampleForm
                        (initialState [docA, docB])) ! 0) = Some ''02/01/2566''
   \<and> subject (documents (handleUpdateDocument sampleHost netOk sampleForm
                        (editAttachmentChange (Some file50MB) (initialState [docA, docB]))) ! 0)
         = Some ''Budget approval (revised)''
   \<and> docDate (documents (handleUpdateDocument sampleHost netOk sampleForm
                        (editAttachmentChange (Some file50MB) (initialState [docA, docB]))) ! 0)
         = Some ''02/01/2566''
   \<and> fileName (documents (handleUpdateDocument sampleHost netOk sampleForm
                        (editAttachmentChange (Some file50MB) (initialState [docA, docB]))) ! 0)
         = Some ''scan.pdf''
   \<and> tags (documents (handleUpdateDocument sampleHost netOk sampleForm
                        (editAttachmentChange (Some file50MB) (initialState [docA, docB]))) ! 0)
         = Some [''ABC'', ''finance'']"
proof -
  let ?s = "initialState [docA, docB]"
  let ?s' = "handleUpdateDocument sampleHost netOk sampleForm ?s"
  let ?t = "editAttachmentChange (Some file50MB) (initialState [docA, docB])"
  let ?t' = "handleUpdateDocument sampleHost netOk sampleForm ?t"
  have docs: "documents ?s = [docA, docB]" and nofile: "files (editAttachment ?s) = None"
    by (simp_all add: initialState_def)
  have docst: "documents ?t = [docA, docB]"
    by (simp add: editAttachmentChange_def initialState_def)
  have chosen: "files (editAttachment ?t) = Some file50MB"
    by (simp add: editAttachmentChange_def handleFileChange_def Let_def file50MB_def
          maxSize_def allowedTypes_def)
  have content: "file_base64 file50MB = Some ''JVBERi0xLjQ=''"
    and fname: "file_name file50MB = ''scan.pdf''"
    by (simp_all add: file50MB_def)
  have a: "doc_id docA = Some ''doc_1700000000001''"
    "createdAt docA = Some ''2023-11-14T22:13:20.001Z''" "fileName docA = None"
    "tags docA = Some [''ABC'', ''finance'']"
    by (simp_all add: docA_def sampleDoc_def)
  have tr: "trim (edit_docDate sampleForm) = ''02/01/2566''"
    by (simp add: sampleForm_def trim_def isWhiteSpace_def)
  have valid: "validateEditForm sampleForm = []"
    unfolding validateEditForm_def tr
    by (simp add: sampleForm_def trim_def isWhiteSpace_def isDigit_def)
  have found: "findIndex (\<lambda>d. doc_id d = Some (edit_docId sampleForm)) (documents ?s) = Some 0"
    by (simp add: docs a sampleForm_def)
  have foundt: "findIndex (\<lambda>d. doc_id d = Some (edit_docId sampleForm)) (documents ?t) = Some 0"
    by (simp add: docst a sampleForm_def)
  have run: "syncWithGoogleSheet netOk ''update'' (PDocument upd) 2 1000 =
             (Inr None, [Fetch ''update'' (PDocument upd)])" for upd
    by (simp add: numeral_2_eq_2 sync_Suc tryExchange_def netOk_def parseResponse_def parseBody_def)
  note inst = update_preserves_identity[OF refl, of sampleHost netOk sampleForm ?s]
  note instt = update_preserves_identity[OF refl, of sampleHost netOk sampleForm ?t]
  have len: "0 < length (documents ?s)" by (simp add: docs)
  have lent: "0 < length (documents ?t)" by (simp add: docst)
  from inst[THEN conjunct2, THEN conjunct1, rule_format, OF len]
  have keep: "doc_id (documents ?s' ! 0) = doc_id (documents ?s ! 0)"
    "createdAt (documents ?s' ! 0) = createdAt (documents ?s ! 0)"
    by simp_all
  from inst[THEN conjunct2, THEN conjunct2, THEN conjunct1, rule_format, OF nofile len]
  have att: "fileName (documents ?s' ! 0) = fileName (documents ?s ! 0)"
    by simp
  note committed = inst[THEN conjunct2, THEN conjunct2, THEN conjunct2, THEN conjunct1, rule_format,
           of 0 None, OF conjI[OF valid conjI[OF found conjI[OF nofile run]]]]
  have new: "docNumber (documents ?s' ! 0) = Some (edit_docNumber sampleForm)"
    "docDate (documents ?s' ! 0) = Some (trim (edit_docDate sampleForm))"
    by (rule committed[THEN conjunct2, THEN conjunct1],
        rule committed[THEN conjunct2, THEN conjunct2, THEN conjunct1])
  note withfile = instt[THEN conjunct2, THEN conjunct2, THEN conjunct2, THEN conjunct2, rule_format,
           of 0 file50MB "''JVBERi0xLjQ=''" None,
           OF conjI[OF valid conjI[OF foundt conjI[OF chosen conjI[OF content run]]]]]
  have newt: "subject (documents ?t' ! 0) = Some (edit_subject sampleForm)"
    "docDate (documents ?t' ! 0) = Some (trim (edit_docDate sampleForm))"
    "fileName (documents ?t' ! 0) = Some (file_name file50MB)"
    by (rule withfile[THEN conjunct2, THEN conjunct2, THEN conjunct2, THEN conjunct2, THEN conjunct1],
        rule withfile[THEN conjunct2, THEN conjunct2, THEN conjunct1],
        rule withfile[THEN conjunct2, THEN conjunct2, THEN conjunct2, THEN conjunct2, THEN conjunct2,
                      THEN conjunct2, THEN conjunct1])
  from instt[THEN conjunct2, THEN conjunct1, rule_format, OF lent]
  have keept: "tags (documents ?t' ! 0) = tags (documents ?t ! 0)"
    by simp
  have nd: "edit_docNumber sampleForm = ''MCU 8001/13''"
    and ns: "edit_subject sampleForm = ''Budget approval (revised)''"
    by (simp_all add: sampleForm_def)
  show ?thesis
    unfolding keep att new newt keept tr nd ns fname docs docst using a by simp
qed

text \<open>
  The claim as first stated has every field other than \<open>id\<close>, \<open>createdAt\<close> and the
  attachment come from the patch. The same form applied to two documents that differ in
  their tags leaves each with its own tags, and the stored date is not the date typed.
\<close>

theorem update_tags_counterexample:
  "tags (documents (handleUpdateDocument sampleHost netOk sampleForm
                      (initialState [docA])) ! 0) = Some [''ABC'', ''finance'']
   \<and> tags (documents (handleUpdateDocument sampleHost netOk sampleForm
                      (initialState [docA\<lparr>tags := Some [''archive'']\<rparr>])) ! 0) = Some [''archive'']
   \<and> docDate (documents (handleUpdateDocument sampleHost netOk sampleForm
                      (initialState [docA])) ! 0) = Some ''02/01/2566''
   \<and> edit_docDate sampleForm = '' 02/01/2566 ''"
proof -
  have tr: "trim (edit_docDate sampleForm) = ''02/01/2566''"
    by (simp add: sampleForm_def trim_def isWhiteSpace_def)
  have valid: "validateEditForm sampleForm = []"
    unfolding validateEditForm_def tr
    by (simp add: sampleForm_def trim_def isWhiteSpace_def isDigit_def)
  have run: "syncWithGoogleSheet netOk ''update'' (PDocument upd) 2 1000 =
             (Inr None, [Fetch ''update'' (PDocument upd)])" for upd
    by (simp add: numeral_2_eq_2 sync_Suc tryExchange_def netOk_def parseResponse_def parseBody_def)
  have one: "documents (handleUpdateDocument sampleHost netOk sampleForm (initialState [d])) ! 0
               = updatedDocData d sampleForm None"
    if "doc_id d = Some ''doc_1700000000001''" for d
  proof -
    have docs: "documents (initialState [d]) = [d]"
      and nofile: "files (editAttachment (initialState [d])) = None"
      by (simp_all add: initialState_def)
    have found: "findIndex (\<lambda>x. doc_id x = Some (edit_docId sampleForm))
                   (documents (initialState [d])) = Some 0"
      by (simp add: docs that sampleForm_def)
    from update_committed[OF valid found nofile run, of sampleHost]
    show ?thesis by (simp add: docs)
  qed
  have ida: "doc_id docA = Some ''doc_1700000000001''"
    and tga: "tags docA = Some [''ABC'', ''finance'']"
    by (simp_all add: docA_def sampleDoc_def)
  have idb: "doc_id (docA\<lparr>tags := Some [''archive'']\<rparr>) = Some ''doc_1700000000001''"
    using ida by simp
  show ?thesis
    unfolding one[OF ida] one[OF idb] updatedDocData_keeps updatedDocData_form tr
    using tga by (simp add: sampleForm_def)
qed

section \<open>An id that is not in the collection\<close>

lemma update_absent:
  assumes "findIndex (\<lambda>d. doc_id d = Some (edit_docId form)) (documents s) = None"
  shows "handleUpdateDocument h net form s =
           s\<lparr>editFormErrors := validateEditForm form,
             editAttachment := (editAttachment s)\<lparr>errorText := [], invalid := False\<rparr>\<rparr>"
  using assms by (simp add: handleUpdateDocument_def Let_def)

text \<open>
  C8 (as amended). For an id that no document of the collection has, delete returns the
  state as it was, and update changes neither the collection, the cache, the trace (no
  remote call, no cache write) nor the notifications: both are silent no-ops.
\<close>

theorem absent_id_silent_noop:
  assumes absent: "\<forall>d \<in> set (documents s). doc_id d \<noteq> Some docId"
    and form: "edit_docId form = docId"
  shows "handleDeleteDocument h net confirmed docId s = s
    \<and> documents (handleUpdateDocument h net form s) = documents s
    \<and> localStorage (handleUpdateDocument h net form s) = localStorage s
    \<and> trace (handleUpdateDocument h net form s) = trace s
    \<and> toasts (handleUpdateDocument h net form s) = toasts s"
proof -
  from absent have "find (\<lambda>d. doc_id d = Some docId) (documents s) = None"
    by (simp add: find_None_iff)
  then have del: "handleDeleteDocument h net confirmed docId s = s"
    by (rule delete_absent)
  from absent form
  have "findIndex (\<lambda>d. doc_id d = Some (edit_docId form)) (documents s) = None"
    by (simp add: findIndex_None_iff)
  then have upd: "handleUpdateDocument h net form s =
           s\<lparr>editFormErrors := validateEditForm form,
             editAttachment := (editAttachment s)\<lparr>errorText := [], invalid := False\<rparr>\<rparr>"
    by (rule update_absent)
  show ?thesis
    unfolding upd using del by simp
qed

theorem absent_id_silent_noop_witness:
  "handleDeleteDocument sampleHost netOk True ''doc_0'' (initialState [docA, docB])
     = initialState [docA, docB]
   \<and> documents (handleUpdateDocument sampleHost netOk (sampleForm\<lparr>edit_docId := ''doc_0''\<rparr>)
                  (initialState [docA, docB])) = [docA, docB]
   \<and> trace (handleUpdateDocument sampleHost netOk (sampleForm\<lparr>edit_docId := ''doc_0''\<rparr>)
                  (initialState [docA, docB])) = []"
proof -
  have absent: "\<forall>d \<in> set (documents (initialState [docA, docB])). doc_id d \<noteq> Some ''doc_0''"
    by (simp add: initialState_def docA_def docB_def sampleDoc_def)
  have form: "edit_docId (sampleForm\<lparr>edit_docId := ''doc_0''\<rparr>) = ''doc_0''"
    by simp
  have init: "documents (initialState [docA, docB]) = [docA, docB]"
    "trace (initialState [docA, docB]) = []"
    by (simp_all add: initialState_def)
  from absent_id_silent_noop[OF absent form, of sampleHost netOk True] init
  show ?thesis by simp
qed

text \<open>
  The claim as first stated has the no-op accompanied by a user notification. No
  notification is shown: after a delete and after an update of an id that is not in the
  collection the list of notifications is still empty.
\<close>

theorem absent_id_notification_counterexample:
  "find (\<lambda>d. doc_id d = Some ''doc_0'') (documents (initialState [docA, docB])) = None
   \<and> toasts (handleDeleteDocument sampleHost netOk True ''doc_0'' (initialState [docA, docB])) = []
   \<and> toasts (handleUpdateDocument sampleHost netOk (sampleForm\<lparr>edit_docId := ''doc_0''\<rparr>)
                (initialState [docA, docB])) = []"
proof -
  have ids: "doc_id docA = Some ''doc_1700000000001''" "doc_id docB = Some ''doc_1700000000002''"
    by (simp_all add: docA_def docB_def sampleDoc_def)
  have docs: "documents (initialState [docA, docB]) = [docA, docB]"
    and none: "toasts (initialState [docA, docB]) = []"
    by (simp_all add: initialState_def)
  have f: "find (\<lambda>d. doc_id d = Some ''doc_0'') (documents (initialState [docA, docB])) = None"
    by (simp add: docs ids)
  have del: "handleDeleteDocument sampleHost netOk True ''doc_0'' (initialState [docA, docB])
               = initialState [docA, docB]"
    using f by (rule delete_absent)
  have "findIndex (\<lambda>d. doc_id d = Some (edit_docId (sampleForm\<lparr>edit_docId := ''doc_0''\<rparr>)))
          (documents (initialState [docA, docB])) = None"
    by (simp add: docs ids)
  then have upd: "toasts (handleUpdateDocument sampleHost netOk (sampleForm\<lparr>edit_docId := ''doc_0''\<rparr>)
                (initialState [docA, docB])) = toasts (initialState [docA, docB])"
    by (simp add: update_absent)
  from f del upd none show ?thesis by simp
qed

section \<open>Attachments\<close>

lemma handleFileChange_files:
  "files (handleFileChange (inp\<lparr>files := Some f\<rparr>)) =
     (if file_size f \<le> maxSize \<and> file_type f \<in> set allowedTypes then Some f else None)"
  by (simp add: handleFileChange_def Let_def)

lemma handleFileChange_invalid:
  "invalid (handleFileChange (inp\<lparr>files := Some f\<rparr>)) =
     (\<not> (file_size f \<le> maxSize \<and> file_type f \<in> set allowedTypes))"
  by (auto simp: handleFileChange_def Let_def)

lemma handleFileChange_reset:
  "(handleFileChange inp)\<lparr>errorText := [], invalid := False\<rparr> =
     (if files (handleFileChange inp) = None
      then inp\<lparr>files := None, displayText := msgNoFile, errorText := [], invalid := False\<rparr>
      else inp\<lparr>displayText := file_name (the (files inp)), errorText := [], invalid := False\<rparr>)"
  by (auto simp: handleFileChange_def Let_def split: option.splits)

text \<open>\<open>handleUpdateDocument\<close> reads the state only after clearing the validation marks.\<close>

lemma update_reads_cleared:
  assumes "s\<lparr>editAttachment := (editAttachment s)\<lparr>errorText := [], invalid := False\<rparr>\<rparr> =
           t\<lparr>editAttachment := (editAttachment t)\<lparr>errorText := [], invalid := False\<rparr>\<rparr>"
  shows "handleUpdateDocument h net form s = handleUpdateDocument h net form t"
proof -
  have comm: "x\<lparr>editFormErrors := e, editAttachment := a\<rparr> =
              (x\<lparr>editAttachment := a\<rparr>)\<lparr>editFormErrors := e\<rparr>" for x :: app_state and e a
    by (cases x) simp
  have "s\<lparr>editFormErrors := e,
          editAttachment := (editAttachment s)\<lparr>errorText := [], invalid := False\<rparr>\<rparr> =
        t\<lparr>editFormErrors := e,
          editAttachment := (editAttachment t)\<lparr>errorText := [], invalid := False\<rparr>\<rparr>" for e
    unfolding comm by (simp only: assms)
  then show ?thesis
    by (simp only: handleUpdateDocument_def Let_def)
qed

text \<open>
  C9. A chosen file stays in the input exactly when its size is at most 50 MB
  (50 * 1024 * 1024 bytes, the bound included) and its MIME type is one of
  \<open>image/jpeg\<close>, \<open>image/png\<close>, \<open>image/gif\<close>, \<open>application/pdf\<close>; otherwise the
  input is cleared and marked invalid. The check touches neither the collection, the
  cache, the trace (no network exchange) nor the notifications, and an update submitted
  after a rejected choice runs exactly as one submitted with no file chosen.
\<close>

theorem attachment_acceptance:
  "files (handleFileChange (inp\<lparr>files := Some f\<rparr>)) =
     (if file_size f \<le> 50 * 1024 * 1024
         \<and> file_type f \<in> {''image/jpeg'', ''image/png'', ''image/gif'', ''application/pdf''}
      then Some f else None)
   \<and> invalid (handleFileChange (inp\<lparr>files := Some f\<rparr>)) =
       (\<not> (file_size f \<le> 50 * 1024 * 1024
            \<and> file_type f \<in> {''image/jpeg'', ''image/png'', ''image/gif'', ''application/pdf''}))
   \<and> documents (editAttachmentChange sel s) = documents s
   \<and> localStorage (editAttachmentChange sel s) = localStorage s
   \<and> trace (editAttachmentChange sel s) = trace s
   \<and> toasts (editAttachmentChange sel s) = toasts s
   \<and> (files (editAttachment (editAttachmentChange (Some f) s)) = None \<longrightarrow>
        handleUpdateDocument h net form (editAttachmentChange (Some f) s) =
        handleUpdateDocument h net form (editAttachmentChange None s))"
proof -
  have sz: "maxSize = 50 * 1024 * 1024" by (simp add: maxSize_def)
  have ty: "set allowedTypes = {''image/jpeg'', ''image/png'', ''image/gif'', ''application/pdf''}"
    by (simp add: allowedTypes_def)
  have a: "files (handleFileChange (inp\<lparr>files := Some f\<rparr>)) =
     (if file_size f \<le> 50 * 1024 * 1024
         \<and> file_type f \<in> {''image/jpeg'', ''image/png'', ''image/gif'', ''application/pdf''}
      then Some f else None)"
    by (simp only: handleFileChange_files sz ty)
  have b: "invalid (handleFileChange (inp\<lparr>files := Some f\<rparr>)) =
       (\<not> (file_size f \<le> 50 * 1024 * 1024
            \<and> file_type f \<in> {''image/jpeg'', ''image/png'', ''image/gif'', ''application/pdf''}))"
    by (simp only: handleFileChange_invalid sz ty)
  have c: "documents (editAttachmentChange sel s) = documents s"
    "localStorage (editAttachmentChange sel s) = localStorage s"
    "trace (editAttachmentChange sel s) = trace s"
    "toasts (editAttachmentChange sel s) = toasts s"
    by (simp_all add: editAttachmentChange_def)
  have d: "handleUpdateDocument h net form (editAttachmentChange (Some f) s) =
        handleUpdateDocument h net form (editAttachmentChange None s)"
    if rej: "files (editAttachment (editAttachmentChange (Some f) s)) = None"
  proof (rule update_reads_cleared)
    from rej have r: "files (handleFileChange ((editAttachment s)\<lparr>files := Some f\<rparr>)) = None"
      by (simp add: editAttachmentChange_def)
    have n: "files (handleFileChange ((editAttachment s)\<lparr>files := None\<rparr>)) = None"
      by (simp add: handleFileChange_def Let_def)
    show "(editAttachmentChange (Some f) s)
            \<lparr>editAttachment := (editAttachment (editAttachmentChange (Some f) s))
                                  \<lparr>errorText := [], invalid := False\<rparr>\<rparr> =
          (editAttachmentChange None s)
            \<lparr>editAttachment := (editAttachment (editAttachmentChange None s))
                                  \<lparr>errorText := [], invalid := False\<rparr>\<rparr>"
      by (simp add: editAttachmentChange_def handleFileChange_reset r n)
  qed
  show ?thesis
    apply (intro conjI impI)
          apply (rule a)
         apply (rule b)
        apply (rule c(1))
       apply (rule c(2))
      apply (rule c(3))
     apply (rule c(4))
    apply (erule d)
    done
qed

theorem attachment_acceptance_witness:
  "files (handleFileChange (editAttachment (initialState [docA])\<lparr>files := Some file50MB\<rparr>))
     = Some file50MB
   \<and> files (handleFileChange (editAttachment (initialState [docA])\<lparr>files := Some file51MB\<rparr>))
     = None
   \<and> trace (editAttachmentChange (Some file51MB) (initialState [docA])) = []
   \<and> handleUpdateDocument sampleHost netOk sampleForm
         (editAttachmentChange (Some file51MB) (initialState [docA])) =
       handleUpdateDocument sampleHost netOk sampleForm
         (editAttachmentChange None (initialState [docA]))"
proof -
  note a50 = attachment_acceptance[where inp = "editAttachment (initialState [docA])"
      and f = file50MB and sel = None and s = "initialState [docA]" and h = sampleHost
      and net = netOk and form = sampleForm]
  note a51 = attachment_acceptance[where inp = "editAttachment (initialState [docA])"
      and f = file51MB and sel = "Some file51MB" and s = "initialState [docA]" and h = sampleHost
      and net = netOk and form = sampleForm]
  have ok: "files (handleFileChange (editAttachment (initialState [docA])\<lparr>files := Some file50MB\<rparr>))
     = Some file50MB"
    unfolding a50[THEN conjunct1] by (simp add: file50MB_def)
  have rej: "files (handleFileChange (editAttachment (initialState [docA])\<lparr>files := Some file51MB\<rparr>))
     = None"
    unfolding a51[THEN conjunct1] by (simp add: file51MB_def)
  have tr: "trace (editAttachmentChange (Some file51MB) (initialState [docA])) = []"
    unfolding a51[THEN conjunct2, THEN conjunct2, THEN conjunct2, THEN conjunct2, THEN conjunct1]
    by (simp add: initialState_def)
  have cleared: "files (editAttachment (editAttachmentChange (Some file51MB) (initialState [docA]))) = None"
    using rej by (simp add: editAttachmentChange_def)
  note same = a51[THEN conjunct2, THEN conjunct2, THEN conjunct2, THEN conjunct2, THEN conjunct2,
      THEN conjunct2, rule_format, OF cleared]
  show ?thesis
    by (intro conjI, rule ok, rule rej, rule tr, rule same)
qed

section \<open>Sorting by a header\<close>

lemma rendered_state:
  assumes "docs \<noteq> []"
  shows "renderResultsTable h docs title s0 =
           s0\<lparr>lastRenderedDocs := docs, lastRenderedTitle := title,
              resultsView := Table title (currentSort s0) (sortDocs h (currentSort s0) docs)\<rparr>"
  using assms by (simp add: renderResultsTable_def Let_def)

lemma click_rendered:
  assumes "docs \<noteq> []"
  shows "sortHeaderClick h k (renderResultsTable h docs title s0) =
           renderResultsTable h docs title
             (s0\<lparr>currentSort :=
                  \<lparr>key = k,
                   direction = (if key (currentSort s0) = k \<and> direction (currentSort s0) = Desc
                                then Asc else Desc)\<rparr>\<rparr>)"
  using assms
  by (simp add: sortHeaderClick_def rendered_state renderResultsTable_def Let_def)

text \<open>
  C7. In a state that shows a rendered table, a click on a sortable header sets the sort
  key to that header's key; on the active key it flips the direction, on any other key it
  sets the direction to descending; the table is rendered again from the same documents in
  the new order. Two clicks on the active key give back the very state they started from,
  so the displayed list is in its original order.
\<close>

theorem sort_toggle:
  assumes docs: "docs \<noteq> []"
    and s: "s = renderResultsTable h docs title s0"
  shows "currentSort (sortHeaderClick h k s) =
           \<lparr>key = k,
            direction = (if key (currentSort s) = k then (if direction (currentSort s) = Desc then Asc else Desc)
                         else Desc)\<rparr>
    \<and> resultsView (sortHeaderClick h k s) =
         Table title (currentSort (sortHeaderClick h k s))
           (sortDocs h (currentSort (sortHeaderClick h k s)) docs)
    \<and> (key (currentSort s) = k \<longrightarrow>
          direction (currentSort (sortHeaderClick h k s)) \<noteq> direction (currentSort s)
          \<and> sortHeaderClick h k (sortHeaderClick h k s) = s)
    \<and> (key (currentSort s) \<noteq> k \<longrightarrow> direction (currentSort (sortHeaderClick h k s)) = Desc)"
proof -
  have cs: "currentSort s = currentSort s0"
    using docs by (simp add: s rendered_state)
  let ?cs1 = "\<lparr>key = k, direction = (if key (currentSort s0) = k \<and> direction (currentSort s0) = Desc
                                then Asc else Desc)\<rparr>"
  have c1: "sortHeaderClick h k s = renderResultsTable h docs title (s0\<lparr>currentSort := ?cs1\<rparr>)"
    unfolding s by (rule click_rendered[OF docs])
  have a: "currentSort (sortHeaderClick h k s) =
           \<lparr>key = k,
            direction = (if key (currentSort s) = k then (if direction (currentSort s) = Desc then Asc else Desc)
                         else Desc)\<rparr>"
    unfolding c1 cs using docs
    by (cases "direction (currentSort s0)") (simp_all add: rendered_state)
  have b: "resultsView (sortHeaderClick h k s) =
         Table title (currentSort (sortHeaderClick h k s))
           (sortDocs h (currentSort (sortHeaderClick h k s)) docs)"
    unfolding c1 using docs by (simp add: rendered_state)
  have c: "direction (currentSort (sortHeaderClick h k s)) \<noteq> direction (currentSort s)
          \<and> sortHeaderClick h k (sortHeaderClick h k s) = s" if act: "key (currentSort s) = k"
  proof
    show "direction (currentSort (sortHeaderClick h k s)) \<noteq> direction (currentSort s)"
      unfolding a using act
      by (cases "direction (currentSort s)") simp_all
    have k0: "key (currentSort s0) = k" using act cs by simp
    have "sortHeaderClick h k (sortHeaderClick h k s) =
            renderResultsTable h docs title
              ((s0\<lparr>currentSort := ?cs1\<rparr>)\<lparr>currentSort :=
                  \<lparr>key = k,
                   direction = (if key (currentSort (s0\<lparr>currentSort := ?cs1\<rparr>)) = k
                                   \<and> direction (currentSort (s0\<lparr>currentSort := ?cs1\<rparr>)) = Desc
                                then Asc else Desc)\<rparr>\<rparr>)"
      unfolding c1 by (rule click_rendered[OF docs])
    also have "(s0\<lparr>currentSort := ?cs1\<rparr>)\<lparr>currentSort :=
                  \<lparr>key = k,
                   direction = (if key (currentSort (s0\<lparr>currentSort := ?cs1\<rparr>)) = k
                                   \<and> direction (currentSort (s0\<lparr>currentSort := ?cs1\<rparr>)) = Desc
                                then Asc else Desc)\<rparr>\<rparr> = s0"
      using k0 by (cases "currentSort s0"; cases "direction (currentSort s0)") auto
    finally show "sortHeaderClick h k (sortHeaderClick h k s) = s"
      by (simp add: s)
  qed
  have d: "direction (currentSort (sortHeaderClick h k s)) = Desc" if "key (currentSort s) \<noteq> k"
    unfolding a using that by simp
  show ?thesis
    apply (intro conjI impI)
        apply (rule a)
       apply (rule b)
      apply (erule c[THEN conjunct1])
     apply (erule c[THEN conjunct2])
    apply (erule d)
    done
qed

theorem sort_toggle_witness:
  "direction (currentSort (sortHeaderClick sampleHost KDocDate
      (renderResultsTable sampleHost [docA, docB] titleResults (initialState [docA, docB])))) = Desc
   \<and> direction (currentSort (sortHeaderClick sampleHost KDocDate
      (renderResultsTable sampleHost [docA, docB] titleResults
         ((initialState [docA, docB])\<lparr>currentSort := \<lparr>key = KDocDate, direction = Desc\<rparr>\<rparr>)))) = Asc
   \<and> sortHeaderClick sampleHost KDocDate (sortHeaderClick sampleHost KDocDate
      (renderResultsTable sampleHost [docA, docB] titleResults
         ((initialState [docA, docB])\<lparr>currentSort := \<lparr>key = KDocDate, direction = Desc\<rparr>\<rparr>)))
     = renderResultsTable sampleHost [docA, docB] titleResults
         ((initialState [docA, docB])\<lparr>currentSort := \<lparr>key = KDocDate, direction = Desc\<rparr>\<rparr>)"
proof -
  have ne: "[docA, docB] \<noteq> []" by simp
  let ?s0 = "initialState [docA, docB]"
  let ?t0 = "(initialState [docA, docB])\<lparr>currentSort := \<lparr>key = KDocDate, direction = Desc\<rparr>\<rparr>"
  have k0: "key (currentSort (renderResultsTable sampleHost [docA, docB] titleResults ?s0)) \<noteq> KDocDate"
    by (simp add: rendered_state initialState_def)
  have k1: "key (currentSort (renderResultsTable sampleHost [docA, docB] titleResults ?t0)) = KDocDate"
    and d1: "direction (currentSort (renderResultsTable sampleHost [docA, docB] titleResults ?t0)) = Desc"
    by (simp_all add: rendered_state)
  note other = sort_toggle[OF ne refl, where h = sampleHost and title = titleResults
      and ?s0.0 = ?s0 and k = KDocDate,
      THEN conjunct2, THEN conjunct2, THEN conjunct2, rule_format, OF k0]
  note active = sort_toggle[OF ne refl, where h = sampleHost and title = titleResults
      and ?s0.0 = ?t0 and k = KDocDate,
      THEN conjunct2, THEN conjunct2, THEN conjunct1, rule_format, OF k1]
  have flipped: "direction (currentSort (sortHeaderClick sampleHost KDocDate
      (renderResultsTable sampleHost [docA, docB] titleResults ?t0))) = Asc"
    using active[THEN conjunct1] d1
    by (cases "direction (currentSort (sortHeaderClick sampleHost KDocDate
      (renderResultsTable sampleHost [docA, docB] titleResults ?t0)))") simp_all
  show ?thesis
    by (intro conjI, rule other, rule flipped, rule active[THEN conjunct2])
qed

section \<open>Search\<close>

lemma str_includes_iff: "str_includes s q \<longleftrightarrow> (\<exists>p r. s = p @ q @ r)"
proof (induction s)
  case Nil
  show ?case by auto
next
  case (Cons c s)
  have pre: "take (length q) (c # s) = q \<longleftrightarrow> (\<exists>r. c # s = q @ r)"
  proof
    assume "take (length q) (c # s) = q"
    then have "c # s = q @ drop (length q) (c # s)"
      by (metis append_take_drop_id)
    then show "\<exists>r. c # s = q @ r" ..
  next
    assume "\<exists>r. c # s = q @ r"
    then obtain r where "c # s = q @ r" ..
    then show "take (length q) (c # s) = q" by simp
  qed
  have "(\<exists>p r. c # s = p @ q @ r) \<longleftrightarrow> (\<exists>r. c # s = q @ r) \<or> (\<exists>p r. s = p @ q @ r)"
  proof
    assume "\<exists>p r. c # s = p @ q @ r"
    then obtain p r where e: "c # s = p @ q @ r" by blast
    show "(\<exists>r. c # s = q @ r) \<or> (\<exists>p r. s = p @ q @ r)"
    proof (cases p)
      case Nil
      with e show ?thesis by auto
    next
      case (Cons a p')
      with e have "s = p' @ q @ r" by simp
      then show ?thesis by blast
    qed
  next
    assume "(\<exists>r. c # s = q @ r) \<or> (\<exists>p r. s = p @ q @ r)"
    then show "\<exists>p r. c # s = p @ q @ r"
    proof
      assume "\<exists>r. c # s = q @ r"
      then obtain r where "c # s = [] @ q @ r" by auto
      then show ?thesis by blast
    next
      assume "\<exists>p r. s = p @ q @ r"
      then obtain p r where "s = p @ q @ r" by blast
      then have "c # s = (c # p) @ q @ r" by simp
      then show ?thesis by blast
    qed
  qed
  with pre Cons.IH show ?case by simp
qed

lemma containsIgnoringCase_code:
  "containsIgnoringCase field query = str_includes (toLowerCase field) (toLowerCase query)"
  by (simp add: containsIgnoringCase_def str_includes_iff)

lemma toLowerCaseChar_space: "isWhiteSpace (toLowerCaseChar c) = isWhiteSpace c"
proof (cases "isUpperCase c")
  case False
  then show ?thesis by (simp add: toLowerCaseChar_def)
next
  case True
  then have "(of_char c + 32 :: nat) < 256" by (auto simp: isUpperCase_def)
  then have "of_char (char_of (of_char c + (32::nat))) = (of_char c + 32 :: nat)"
    by (simp add: of_char_of)
  with True show ?thesis
    by (auto simp: toLowerCaseChar_def isWhiteSpace_def isUpperCase_def)
qed

lemma dropWhile_toLowerCase:
  "dropWhile isWhiteSpace (toLowerCase s) = toLowerCase (dropWhile isWhiteSpace s)"
  by (induction s) (simp_all add: toLowerCase_def toLowerCaseChar_space)

lemma rev_toLowerCase: "rev (toLowerCase s) = toLowerCase (rev s)"
  by (simp add: toLowerCase_def rev_map)

lemma trim_toLowerCase: "trim (toLowerCase s) = toLowerCase (trim s)"
  by (simp add: trim_def dropWhile_toLowerCase rev_toLowerCase)

lemma toLowerCase_Nil_iff: "toLowerCase s = [] \<longleftrightarrow> s = []"
  by (simp add: toLowerCase_def)

lemma fieldContains_code:
  "fieldContains field query =
     (case field of None \<Rightarrow> False
      | Some v \<Rightarrow> str_includes (toLowerCase v) (toLowerCase query))"
  by (simp add: fieldContains_def containsIgnoringCase_code split: option.splits)

lemma fileName_guard:
  assumes "query \<noteq> []"
  shows "(case fileName d of None \<Rightarrow> False
          | Some fnm \<Rightarrow> fnm \<noteq> [] \<and> str_includes (toLowerCase fnm) (toLowerCase query))
         = fieldContains (fileName d) query"
  using assms
  by (cases "fileName d") (auto simp: fieldContains_code toLowerCase_def)

lemma docMatches_throws:
  assumes "query \<noteq> []"
  shows "(\<exists>e. docMatches (toLowerCase query) d = Inl e) \<longleftrightarrow> missingBeforeMatch query d"
  unfolding docMatches_def missingBeforeMatch_def fileName_guard[OF assms]
  by (cases "subject d"; cases "docNumber d"; cases "source d"; cases "doc_notes d"; cases "tags d")
     (simp_all add: fieldContains_code)

lemma docMatches_value:
  assumes "query \<noteq> []" and "\<not> missingBeforeMatch query d"
  shows "docMatches (toLowerCase query) d = Inr (specMatches query d)"
  using assms(2)
  unfolding docMatches_def missingBeforeMatch_def specMatches_def fileName_guard[OF assms(1)]
  by (cases "subject d"; cases "docNumber d"; cases "source d"; cases "doc_notes d"; cases "tags d")
     (auto simp: fieldContains_code containsIgnoringCase_code)

lemma filterDocs_throws:
  "(\<exists>e. filterDocs p xs = Inl e) \<longleftrightarrow> (\<exists>x \<in> set xs. \<exists>e. p x = Inl e)"
  by (induction xs) (auto split: sum.splits)

lemma filterDocs_value:
  "(\<forall>x \<in> set xs. p x = Inr (f x)) \<Longrightarrow> filterDocs p xs = Inr (filter f xs)"
  by (induction xs) simp_all

lemma handleSearch_query:
  assumes "trim (searchInput s) \<noteq> []"
  shows "handleSearch h s =
     (case filterDocs (docMatches (toLowerCase (trim (searchInput s)))) (documents s) of
        Inl e \<Rightarrow> (Some e, s)
      | Inr results \<Rightarrow> (None, renderResultsTable h results titleResults s))"
  using assms by (simp add: handleSearch_def Let_def trim_toLowerCase toLowerCase_Nil_iff)

lemma handleSearch_throws:
  assumes "trim (searchInput s) \<noteq> []"
  shows "(\<exists>e. fst (handleSearch h s) = Some e) \<longleftrightarrow>
         (\<exists>d \<in> set (documents s). missingBeforeMatch (trim (searchInput s)) d)"
proof -
  have "(\<exists>e. fst (handleSearch h s) = Some e) \<longleftrightarrow>
        (\<exists>e. filterDocs (docMatches (toLowerCase (trim (searchInput s)))) (documents s) = Inl e)"
    unfolding handleSearch_query[OF assms] by (auto split: sum.splits)
  also have "\<dots> \<longleftrightarrow> (\<exists>d \<in> set (documents s). \<exists>e. docMatches (toLowerCase (trim (searchInput s))) d = Inl e)"
    by (rule filterDocs_throws)
  also have "\<dots> \<longleftrightarrow> (\<exists>d \<in> set (documents s). missingBeforeMatch (trim (searchInput s)) d)"
    by (simp only: docMatches_throws[OF assms])
  finally show ?thesis .
qed

lemma handleSearch_thrown_state:
  assumes "trim (searchInput s) \<noteq> []" and "fst (handleSearch h s) = Some e"
  shows "snd (handleSearch h s) = s"
  using assms(2) unfolding handleSearch_query[OF assms(1)] by (auto split: sum.splits)

lemma handleSearch_results:
  assumes q: "trim (searchInput s) \<noteq> []"
    and ok: "\<forall>d \<in> set (documents s). \<not> missingBeforeMatch (trim (searchInput s)) d"
  shows "handleSearch h s =
           (None, renderResultsTable h (filter (specMatches (trim (searchInput s))) (documents s))
                    titleResults s)"
proof -
  have "\<forall>d \<in> set (documents s). docMatches (toLowerCase (trim (searchInput s))) d =
           Inr (specMatches (trim (searchInput s)) d)"
    using ok docMatches_value[OF q] by blast
  then have "filterDocs (docMatches (toLowerCase (trim (searchInput s)))) (documents s) =
           Inr (filter (specMatches (trim (searchInput s))) (documents s))"
    by (rule filterDocs_value)
  then show ?thesis unfolding handleSearch_query[OF q] by simp
qed

lemma missing_notes:
  assumes "doc_notes d = None" "\<not> fieldContains (subject d) q"
    "\<not> fieldContains (docNumber d) q" "\<not> fieldContains (source d) q"
  shows "missingBeforeMatch q d"
  using assms by (simp add: missingBeforeMatch_def)

lemma missing_tags:
  assumes "tags d = None" "\<not> specMatches q d"
  shows "missingBeforeMatch q d"
  using assms by (simp add: missingBeforeMatch_def specMatches_def)

text \<open>
  C10 (as amended). With a query that is not empty after trimming, search throws exactly
  when some document has a missing subject, document number, source, notes or tags that
  is reached before any of its fields, taken in the order subject, document number,
  source, notes, file name, tags, contains the query; the state is then left as it was.
  In particular it throws for a document whose notes are missing when none of its subject,
  document number and source contains the query, and for a document whose tags are missing
  when none of its fields contains the query. When no document is of that kind, search
  returns the matching documents, among them documents that lack notes or tags but match
  on an earlier field.
\<close>

theorem search_throws_on_missing:
  assumes q: "trim (searchInput s) \<noteq> []"
  shows "((\<exists>e. fst (handleSearch h s) = Some e) \<longleftrightarrow>
            (\<exists>d \<in> set (documents s). missingBeforeMatch (trim (searchInput s)) d))
    \<and> ((\<exists>e. fst (handleSearch h s) = Some e) \<longrightarrow> snd (handleSearch h s) = s)
    \<and> (\<forall>d \<in> set (documents s).
          doc_notes d = None \<and> \<not> fieldContains (subject d) (trim (searchInput s))
          \<and> \<not> fieldContains (docNumber d) (trim (searchInput s))
          \<and> \<not> fieldContains (source d) (trim (searchInput s))
          \<longrightarrow> (\<exists>e. fst (handleSearch h s) = Some e))
    \<and> (\<forall>d \<in> set (documents s).
          tags d = None \<and> \<not> specMatches (trim (searchInput s)) d
          \<longrightarrow> (\<exists>e. fst (handleSearch h s) = Some e))
    \<and> ((\<forall>d \<in> set (documents s). \<not> missingBeforeMatch (trim (searchInput s)) d) \<longrightarrow>
          handleSearch h s =
            (None, renderResultsTable h (filter (specMatches (trim (searchInput s))) (documents s))
                     titleResults s))"
proof -
  note iff = handleSearch_throws[OF q, of h]
  have unchanged: "(\<exists>e. fst (handleSearch h s) = Some e) \<longrightarrow> snd (handleSearch h s) = s"
    using handleSearch_thrown_state[OF q] by blast
  have nts: "\<forall>d \<in> set (documents s).
          doc_notes d = None \<and> \<not> fieldContains (subject d) (trim (searchInput s))
          \<and> \<not> fieldContains (docNumber d) (trim (searchInput s))
          \<and> \<not> fieldContains (source d) (trim (searchInput s))
          \<longrightarrow> (\<exists>e. fst (handleSearch h s) = Some e)"
  proof (intro ballI impI, elim conjE)
    fix d assume "d \<in> set (documents s)" "doc_notes d = None"
      "\<not> fieldContains (subject d) (trim (searchInput s))"
      "\<not> fieldContains (docNumber d) (trim (searchInput s))"
      "\<not> fieldContains (source d) (trim (searchInput s))"
    then have "\<exists>d \<in> set (documents s). missingBeforeMatch (trim (searchInput s)) d"
      using missing_notes by blast
    then show "\<exists>e. fst (handleSearch h s) = Some e" by (simp only: iff)
  qed
  have tgs: "\<forall>d \<in> set (documents s).
          tags d = None \<and> \<not> specMatches (trim (searchInput s)) d
          \<longrightarrow> (\<exists>e. fst (handleSearch h s) = Some e)"
  proof (intro ballI impI, elim conjE)
    fix d assume "d \<in> set (documents s)" "tags d = None"
      "\<not> specMatches (trim (searchInput s)) d"
    then have "\<exists>d \<in> set (documents s). missingBeforeMatch (trim (searchInput s)) d"
      using missing_tags by blast
    then show "\<exists>e. fst (handleSearch h s) = Some e" by (simp only: iff)
  qed
  have res: "(\<forall>d \<in> set (documents s). \<not> missingBeforeMatch (trim (searchInput s)) d) \<longrightarrow>
          handleSearch h s =
            (None, renderResultsTable h (filter (specMatches (trim (searchInput s))) (documents s))
                     titleResults s)"
    using handleSearch_results[OF q] by blast
  show ?thesis
    by (intro conjI, rule iff, rule unchanged, rule nts, rule tgs, rule res)
qed

lemma sample_trim: "trim ''abc'' = ''abc''"
  by code_simp

lemma sample_trim2: "trim ''finance'' = ''finance''"
  by code_simp

lemma docBare_finance: "missingBeforeMatch ''finance'' docBare"
  unfolding missingBeforeMatch_def fieldContains_code
  by code_simp

lemma docBare_abc: "specMatches ''abc'' docBare" "\<not> missingBeforeMatch ''abc'' docBare"
  unfolding specMatches_def missingBeforeMatch_def fieldContains_code containsIgnoringCase_code
  by code_simp+

lemma docA_abc: "specMatches ''abc'' docA" "\<not> missingBeforeMatch ''abc'' docA"
  unfolding specMatches_def missingBeforeMatch_def fieldContains_code containsIgnoringCase_code
  by code_simp+

theorem search_throws_on_missing_witness:
  "(\<exists>e. fst (handleSearch sampleHost
              ((initialState [docA, docBare])\<lparr>searchInput := ''finance''\<rparr>)) = Some e)
   \<and> snd (handleSearch sampleHost ((initialState [docA, docBare])\<lparr>searchInput := ''finance''\<rparr>))
       = (initialState [docA, docBare])\<lparr>searchInput := ''finance''\<rparr>
   \<and> handleSearch sampleHost ((initialState [docBare, docA])\<lparr>searchInput := ''abc''\<rparr>)
       = (None, renderResultsTable sampleHost [docBare, docA] titleResults
                  ((initialState [docBare, docA])\<lparr>searchInput := ''abc''\<rparr>))"
proof -
  let ?s = "(initialState [docA, docBare])\<lparr>searchInput := ''finance''\<rparr>"
  let ?t = "(initialState [docBare, docA])\<lparr>searchInput := ''abc''\<rparr>"
  have ts: "trim (searchInput ?s) = ''finance''" and tt: "trim (searchInput ?t) = ''abc''"
    by (simp_all add: sample_trim sample_trim2)
  have qs: "trim (searchInput ?s) \<noteq> []" and qt: "trim (searchInput ?t) \<noteq> []"
    unfolding ts tt by simp_all
  have ds: "documents ?s = [docA, docBare]" and dt: "documents ?t = [docBare, docA]"
    by (simp_all add: initialState_def)
  note ps = search_throws_on_missing[OF qs, of sampleHost]
  note pt = search_throws_on_missing[OF qt, of sampleHost]
  have "\<exists>d \<in> set (documents ?s). missingBeforeMatch (trim (searchInput ?s)) d"
    unfolding ts ds using docBare_finance by simp
  then have thrown: "\<exists>e. fst (handleSearch sampleHost ?s) = Some e"
    by (simp only: ps[THEN conjunct1])
  note same = ps[THEN conjunct2, THEN conjunct1, THEN mp, OF thrown]
  have "\<forall>d \<in> set (documents ?t). \<not> missingBeforeMatch (trim (searchInput ?t)) d"
    unfolding tt dt using docBare_abc(2) docA_abc(2) by simp
  note found = pt[THEN conjunct2, THEN conjunct2, THEN conjunct2, THEN conjunct2, THEN mp, OF this]
  have fl: "filter (specMatches (trim (searchInput ?t))) (documents ?t) = [docBare, docA]"
    unfolding tt dt using docBare_abc(1) docA_abc(1) by simp
  show ?thesis
    by (intro conjI, rule thrown, rule same, rule found[unfolded fl])
qed

text \<open>
  The claim as first stated has search throw whenever the collection holds a document
  without notes or tags. A document without notes and without tags whose subject contains
  the query is found, and nothing is thrown.
\<close>

theorem search_short_circuit_counterexample:
  "doc_notes docBare = None \<and> tags docBare = None
   \<and> fst (handleSearch sampleHost ((initialState [docBare])\<lparr>searchInput := ''abc''\<rparr>)) = None
   \<and> lastRenderedDocs (snd (handleSearch sampleHost
        ((initialState [docBare])\<lparr>searchInput := ''abc''\<rparr>))) = [docBare]"
proof -
  let ?t = "(initialState [docBare])\<lparr>searchInput := ''abc''\<rparr>"
  have tt: "trim (searchInput ?t) = ''abc''"
    by (simp add: sample_trim)
  have qt: "trim (searchInput ?t) \<noteq> []"
    unfolding tt by simp
  have dt: "documents ?t = [docBare]"
    by (simp add: initialState_def)
  have "\<forall>d \<in> set (documents ?t). \<not> missingBeforeMatch (trim (searchInput ?t)) d"
    unfolding tt dt using docBare_abc(2) by simp
  note found = handleSearch_results[OF qt this, of sampleHost]
  have fl: "filter (specMatches (trim (searchInput ?t))) (documents ?t) = [docBare]"
    unfolding tt dt using docBare_abc(1) by simp
  have a: "doc_notes docBare = None" "tags docBare = None"
    by (simp_all add: docBare_def)
  show ?thesis
    unfolding found fl using a by (simp add: renderResultsTable_def Let_def)
qed

section \<open>The sort\<close>

lemma mset_insertBy: "mset (insertBy cmp x ys) = add_mset x (mset ys)"
  by (induction ys) simp_all

lemma mset_jsSort: "mset (jsSort cmp xs) = mset xs"
  unfolding jsSort_def by (induction xs) (simp_all add: mset_insertBy)

lemma set_jsSort: "set (jsSort cmp xs) = set xs"
  using mset_jsSort[of cmp xs] by (metis set_mset_mset)

lemma length_jsSort: "length (jsSort cmp xs) = length xs"
  using mset_jsSort[of cmp xs] by (metis size_mset)

lemma set_insertBy: "set (insertBy cmp x ys) = insert x (set ys)"
  using mset_insertBy[of cmp x ys] by (metis set_mset_add_mset_insert set_mset_mset)

text \<open>A comparator that orders by a key, largest first.\<close>

lemma sorted_insertBy:
  assumes cmp: "\<And>a b. a \<in> insert x (set ys) \<Longrightarrow> b \<in> insert x (set ys) \<Longrightarrow>
                  (cmp a b \<le> 0) = (k b \<le> (k a :: int))"
    and srt: "sorted_wrt (\<lambda>a b. k b \<le> k a) ys"
  shows "sorted_wrt (\<lambda>a b. k b \<le> k a) (insertBy cmp x ys)"
  using assms
proof (induction ys)
  case Nil
  show ?case by simp
next
  case (Cons y ys)
  have xy: "(cmp x y \<le> 0) = (k y \<le> k x)"
    by (rule Cons.prems(1)) simp_all
  show ?case
  proof (cases "cmp x y \<le> 0")
    case True
    with xy have "k y \<le> k x" by simp
    moreover from Cons.prems(2) have "\<forall>z \<in> set ys. k z \<le> k y" by simp
    ultimately have "\<forall>z \<in> set (y # ys). k z \<le> k x" by auto
    with True Cons.prems(2) show ?thesis by simp
  next
    case False
    with xy have lt: "k x \<le> k y" by simp
    have ih: "sorted_wrt (\<lambda>a b. k b \<le> k a) (insertBy cmp x ys)"
    proof (rule Cons.IH)
      fix a b assume "a \<in> insert x (set ys)" "b \<in> insert x (set ys)"
      then show "(cmp a b \<le> 0) = (k b \<le> k a)"
        using Cons.prems(1)[of a b] by auto
    next
      from Cons.prems(2) show "sorted_wrt (\<lambda>a b. k b \<le> k a) ys" by simp
    qed
    from Cons.prems(2) lt have "\<forall>z \<in> set (insertBy cmp x ys). k z \<le> k y"
      by (auto simp: set_insertBy)
    with False ih show ?thesis by simp
  qed
qed

lemma sorted_jsSort:
  assumes "\<And>a b. a \<in> set xs \<Longrightarrow> b \<in> set xs \<Longrightarrow> (cmp a b \<le> 0) = (k b \<le> (k a :: int))"
  shows "sorted_wrt (\<lambda>a b. k b \<le> k a) (jsSort cmp xs)"
  using assms
proof (induction xs)
  case Nil
  show ?case by (simp add: jsSort_def)
next
  case (Cons x xs)
  have ih: "sorted_wrt (\<lambda>a b. k b \<le> k a) (jsSort cmp xs)"
    by (rule Cons.IH) (simp add: Cons.prems)
  have "sorted_wrt (\<lambda>a b. k b \<le> k a) (insertBy cmp x (jsSort cmp xs))"
  proof (rule sorted_insertBy[OF _ ih])
    fix a b assume "a \<in> insert x (set (jsSort cmp xs))" "b \<in> insert x (set (jsSort cmp xs))"
    then show "(cmp a b \<le> 0) = (k b \<le> k a)"
      using Cons.prems[of a b] by (simp add: set_jsSort)
  qed
  then show ?case by (simp add: jsSort_def)
qed

text \<open>Sorting a list that is already in order changes nothing.\<close>

lemma insertBy_first:
  "sorted_wrt (\<lambda>a b. cmp a b \<le> 0) (x # ys) \<Longrightarrow> insertBy cmp x ys = x # ys"
  by (cases ys) simp_all

lemma jsSort_sorted:
  "sorted_wrt (\<lambda>a b. cmp a b \<le> 0) xs \<Longrightarrow> jsSort cmp xs = xs"
proof (induction xs)
  case Nil
  show ?case by (simp add: jsSort_def)
next
  case (Cons x xs)
  from Cons.prems have "sorted_wrt (\<lambda>a b. cmp a b \<le> 0) xs" by simp
  then have "jsSort cmp xs = xs" by (rule Cons.IH)
  then have "jsSort cmp (x # xs) = insertBy cmp x xs" by (simp add: jsSort_def)
  with insertBy_first[OF Cons.prems] show ?case by simp
qed

lemma mset_sortDocs: "mset (sortDocs h cs docs) = mset docs"
  by (simp add: sortDocs_def mset_jsSort)

section \<open>The most recent documents\<close>

lemma recentCompare_key:
  assumes "getTime h (createdAt a) \<noteq> None" "getTime h (createdAt b) \<noteq> None"
  shows "(recentCompare h a b \<le> 0) = (createdTime h b \<le> createdTime h a)"
  using assms by (auto simp: recentCompare_def numDiff_def createdTime_def)

lemma compareDocs_recent:
  "compareDocs h \<lparr>key = KCreatedAt, direction = Desc\<rparr> = recentCompare h"
  by (intro ext) (simp add: compareDocs_def recentCompare_def Let_def)

lemma recent_sorted:
  assumes "\<forall>d \<in> set docs. getTime h (createdAt d) \<noteq> None"
  shows "sorted_wrt (\<lambda>a b. createdTime h b \<le> createdTime h a) (jsSort (recentCompare h) docs)"
  by (rule sorted_jsSort) (simp add: recentCompare_key assms)

lemma sorted_wrt_take: "sorted_wrt P xs \<Longrightarrow> sorted_wrt P (take n xs)"
  by (metis append_take_drop_id sorted_wrt_append)

lemma take_before_drop:
  assumes "sorted_wrt P xs" "x \<in> set (take n xs)" "y \<in> set (drop n xs)"
  shows "P x y"
proof -
  have "sorted_wrt P (take n xs @ drop n xs)" using assms(1) by simp
  then show ?thesis using assms(2,3) unfolding sorted_wrt_append by blast
qed

lemma mset_minus_take:
  assumes "mset zs = mset docs"
  shows "mset docs - mset (take n zs) = mset (drop n zs)"
proof -
  have "mset docs = mset (take n zs) + mset (drop n zs)"
    unfolding assms[symmetric] by (metis append_take_drop_id mset_append)
  then show ?thesis by simp
qed

lemma recent_rows:
  assumes times: "\<forall>d \<in> set docs. getTime h (createdAt d) \<noteq> None"
  shows "sortDocs h \<lparr>key = KCreatedAt, direction = Desc\<rparr> (take n (jsSort (recentCompare h) docs))
           = take n (jsSort (recentCompare h) docs)"
proof -
  let ?zs = "jsSort (recentCompare h) docs"
  have key: "sorted_wrt (\<lambda>a b. createdTime h b \<le> createdTime h a) (take n ?zs)"
    by (rule sorted_wrt_take[OF recent_sorted[OF times]])
  have mem: "\<forall>d \<in> set (take n ?zs). getTime h (createdAt d) \<noteq> None"
    using times by (metis in_set_takeD set_jsSort)
  have "sorted_wrt (\<lambda>a b. recentCompare h a b \<le> 0) (take n ?zs)"
    using key mem
    by (rule_tac sorted_wrt_mono_rel[where P = "\<lambda>a b. createdTime h b \<le> createdTime h a"])
       (simp_all add: recentCompare_key)
  then show ?thesis
    unfolding sortDocs_def compareDocs_recent by (rule jsSort_sorted)
qed

lemma handleSearch_blank:
  assumes "trim (searchInput s) = []"
  shows "handleSearch h s = (None, renderRecentDocuments h s)"
  using assms by (simp add: handleSearch_def Let_def trim_toLowerCase toLowerCase_Nil_iff)

lemma conforming_not_missing:
  "hasSearchFields d \<Longrightarrow> \<not> missingBeforeMatch q d"
  by (simp add: hasSearchFields_def missingBeforeMatch_def)

lemma renderRecentDocuments_shown:
  assumes ne: "documents s \<noteq> []"
    and times: "\<forall>d \<in> set (documents s). getTime h (createdAt d) \<noteq> None"
  shows "lastRenderedDocs (renderRecentDocuments h s) = take 10 (jsSort (recentCompare h) (documents s))"
    and "resultsView (renderRecentDocuments h s) =
           Table titleRecent \<lparr>key = KCreatedAt, direction = Desc\<rparr>
             (take 10 (jsSort (recentCompare h) (documents s)))"
proof -
  let ?recent = "take 10 (jsSort (recentCompare h) (documents s))"
  have "length ?recent = min 10 (length (documents s))"
    by (simp add: length_jsSort min.commute)
  with ne have rne: "?recent \<noteq> []" by (cases "documents s") auto
  have r: "renderRecentDocuments h s =
             renderResultsTable h ?recent titleRecent
               (s\<lparr>currentSort := \<lparr>key = KCreatedAt, direction = Desc\<rparr>\<rparr>)"
    using ne by (simp add: renderRecentDocuments_def Let_def)
  show "lastRenderedDocs (renderRecentDocuments h s) = ?recent"
    unfolding r by (simp add: renderResultsTable_def Let_def)
  show "resultsView (renderRecentDocuments h s) =
           Table titleRecent \<lparr>key = KCreatedAt, direction = Desc\<rparr> ?recent"
    unfolding r using rne by (simp add: renderResultsTable_def Let_def recent_rows[OF times])
qed

text \<open>
  C5 (as amended). When the query is not empty after trimming and every document has
  the fields search reads, search throws nothing and its result is exactly the documents
  for which the trimmed query is a case-insensitive substring of the subject, document
  number, source, notes, attachment file name or some tag; the table shows these
  documents, in the current sort order. When the query is empty or white space only and
  every \<open>createdAt\<close> parses, the table shows the most recent documents: at most 10 of
  them, all of them if there are fewer, ordered by \<open>createdAt\<close> descending, and no
  document left out is more recent than one shown. With an empty collection the
  placeholder is shown.
\<close>

theorem search_results:
  "(trim (searchInput s) \<noteq> [] \<and> (\<forall>d \<in> set (documents s). hasSearchFields d) \<longrightarrow>
      fst (handleSearch h s) = None
      \<and> lastRenderedDocs (snd (handleSearch h s)) =
          filter (specMatches (trim (searchInput s))) (documents s)
      \<and> resultsView (snd (handleSearch h s)) =
          (if filter (specMatches (trim (searchInput s))) (documents s) = []
           then NotFound titleResults
           else Table titleResults (currentSort s)
                  (sortDocs h (currentSort s)
                     (filter (specMatches (trim (searchInput s))) (documents s))))
      \<and> mset (sortDocs h (currentSort s) (filter (specMatches (trim (searchInput s))) (documents s)))
          = mset (filter (specMatches (trim (searchInput s))) (documents s)))
   \<and> (trim (searchInput s) = [] \<and> documents s \<noteq> []
        \<and> (\<forall>d \<in> set (documents s). getTime h (createdAt d) \<noteq> None) \<longrightarrow>
      fst (handleSearch h s) = None
      \<and> resultsView (snd (handleSearch h s)) =
          Table titleRecent \<lparr>key = KCreatedAt, direction = Desc\<rparr>
            (lastRenderedDocs (snd (handleSearch h s)))
      \<and> length (lastRenderedDocs (snd (handleSearch h s))) = min 10 (length (documents s))
      \<and> sorted_wrt (\<lambda>a b. createdTime h b \<le> createdTime h a)
           (lastRenderedDocs (snd (handleSearch h s)))
      \<and> mset (lastRenderedDocs (snd (handleSearch h s))) \<subseteq># mset (documents s)
      \<and> (\<forall>x \<in> set (lastRenderedDocs (snd (handleSearch h s))).
            \<forall>y \<in># mset (documents s) - mset (lastRenderedDocs (snd (handleSearch h s))).
              createdTime h y \<le> createdTime h x))
   \<and> (trim (searchInput s) = [] \<and> documents s = [] \<longrightarrow>
        handleSearch h s = (None, s\<lparr>resultsView := NoDocuments\<rparr>))"
proof (intro conjI impI)
  assume a: "trim (searchInput s) \<noteq> [] \<and> (\<forall>d \<in> set (documents s). hasSearchFields d)"
  then have q: "trim (searchInput s) \<noteq> []" by (rule conjunct1)
  from a have "\<forall>d \<in> set (documents s). \<not> missingBeforeMatch (trim (searchInput s)) d"
    using conforming_not_missing by blast
  note res = handleSearch_results[OF q this, of h]
  show "fst (handleSearch h s) = None"
    unfolding res by simp
  show "lastRenderedDocs (snd (handleSearch h s)) =
          filter (specMatches (trim (searchInput s))) (documents s)"
    unfolding res by (simp add: renderResultsTable_def Let_def)
  show "resultsView (snd (handleSearch h s)) =
          (if filter (specMatches (trim (searchInput s))) (documents s) = []
           then NotFound titleResults
           else Table titleResults (currentSort s)
                  (sortDocs h (currentSort s)
                     (filter (specMatches (trim (searchInput s))) (documents s))))"
    unfolding res by (simp add: renderResultsTable_def Let_def)
  show "mset (sortDocs h (currentSort s) (filter (specMatches (trim (searchInput s))) (documents s)))
          = mset (filter (specMatches (trim (searchInput s))) (documents s))"
    by (rule mset_sortDocs)
next
  assume a: "trim (searchInput s) = [] \<and> documents s \<noteq> []
        \<and> (\<forall>d \<in> set (documents s). getTime h (createdAt d) \<noteq> None)"
  then have q: "trim (searchInput s) = []" and ne: "documents s \<noteq> []"
    and times: "\<forall>d \<in> set (documents s). getTime h (createdAt d) \<noteq> None"
    by simp_all
  let ?zs = "jsSort (recentCompare h) (documents s)"
  note res = handleSearch_blank[OF q, of h]
  have shown: "lastRenderedDocs (snd (handleSearch h s)) = take 10 ?zs"
    unfolding res by (simp add: renderRecentDocuments_shown(1)[OF ne times])
  show "fst (handleSearch h s) = None"
    unfolding res by simp
  show "resultsView (snd (handleSearch h s)) =
          Table titleRecent \<lparr>key = KCreatedAt, direction = Desc\<rparr>
            (lastRenderedDocs (snd (handleSearch h s)))"
    unfolding shown unfolding res by (simp add: renderRecentDocuments_shown(2)[OF ne times])
  show "length (lastRenderedDocs (snd (handleSearch h s))) = min 10 (length (documents s))"
    unfolding shown by (simp add: length_jsSort min.commute)
  show "sorted_wrt (\<lambda>a b. createdTime h b \<le> createdTime h a)
           (lastRenderedDocs (snd (handleSearch h s)))"
    unfolding shown by (rule sorted_wrt_take[OF recent_sorted[OF times]])
  have "mset (take 10 ?zs) \<subseteq># mset ?zs"
    by (metis append_take_drop_id mset_append mset_subset_eq_add_left)
  then show "mset (lastRenderedDocs (snd (handleSearch h s))) \<subseteq># mset (documents s)"
    unfolding shown by (simp add: mset_jsSort)
  show "\<forall>x \<in> set (lastRenderedDocs (snd (handleSearch h s))).
            \<forall>y \<in># mset (documents s) - mset (lastRenderedDocs (snd (handleSearch h s))).
              createdTime h y \<le> createdTime h x"
    unfolding shown mset_minus_take[OF mset_jsSort]
    using take_before_drop[OF recent_sorted[OF times]] by auto
next
  assume "trim (searchInput s) = [] \<and> documents s = []"
  then show "handleSearch h s = (None, s\<lparr>resultsView := NoDocuments\<rparr>)"
    by (simp add: handleSearch_blank renderRecentDocuments_def Let_def)
qed

lemma docB_abc: "\<not> specMatches ''abc'' docB"
  unfolding specMatches_def fieldContains_code containsIgnoringCase_code
  by code_simp

lemma sample_conform: "hasSearchFields docA" "hasSearchFields docB"
  by (simp_all add: hasSearchFields_def docA_def docB_def sampleDoc_def)

lemma sample_times:
  "getTime sampleHost (createdAt docA) = Some 1700000000001"
  "getTime sampleHost (createdAt docB) = Some 1700000000002"
  by code_simp+

lemma sample_recent:
  "take 10 (jsSort (recentCompare sampleHost) [docA, docB]) = [docB, docA]"
  by (simp add: jsSort_def recentCompare_def sample_times numDiff_def)

theorem search_results_witness:
  "lastRenderedDocs (snd (handleSearch sampleHost
      ((initialState [docA, docB])\<lparr>searchInput := ''abc''\<rparr>))) = [docA]
   \<and> resultsView (snd (handleSearch sampleHost (initialState [docA, docB]))) =
       Table titleRecent \<lparr>key = KCreatedAt, direction = Desc\<rparr> [docB, docA]
   \<and> handleSearch sampleHost (initialState []) =
       (None, (initialState [])\<lparr>resultsView := NoDocuments\<rparr>)"
proof -
  let ?s = "(initialState [docA, docB])\<lparr>searchInput := ''abc''\<rparr>"
  let ?t = "initialState [docA, docB]"
  let ?u = "initialState []"
  have ts: "trim (searchInput ?s) = ''abc''"
    by (simp add: sample_trim)
  have tt: "trim (searchInput ?t) = []" and tu: "trim (searchInput ?u) = []"
    by (simp_all add: initialState_def trim_def)
  have ds: "documents ?s = [docA, docB]" and dt: "documents ?t = [docA, docB]"
    and du: "documents ?u = []"
    by (simp_all add: initialState_def)
  have hs: "trim (searchInput ?s) \<noteq> [] \<and> (\<forall>d \<in> set (documents ?s). hasSearchFields d)"
    unfolding ts ds using sample_conform by simp
  have ht: "trim (searchInput ?t) = [] \<and> documents ?t \<noteq> []
        \<and> (\<forall>d \<in> set (documents ?t). getTime sampleHost (createdAt d) \<noteq> None)"
    unfolding tt dt using sample_times by simp
  have hu: "trim (searchInput ?u) = [] \<and> documents ?u = []"
    unfolding tu du by simp
  note ps = search_results[of ?s sampleHost, THEN conjunct1, THEN mp, OF hs]
  note pt = search_results[of ?t sampleHost, THEN conjunct2, THEN conjunct1, THEN mp, OF ht]
  note pu = search_results[of ?u sampleHost, THEN conjunct2, THEN conjunct2, THEN mp, OF hu]
  have a: "lastRenderedDocs (snd (handleSearch sampleHost ?s)) = [docA]"
    unfolding ps[THEN conjunct2, THEN conjunct1] ts ds
    using docA_abc(1) docB_abc by simp
  have shown: "lastRenderedDocs (snd (handleSearch sampleHost ?t)) = [docB, docA]"
    unfolding handleSearch_blank[OF tt]
    by (simp add: renderRecentDocuments_def renderResultsTable_def Let_def dt sample_recent)
  have b: "resultsView (snd (handleSearch sampleHost ?t)) =
       Table titleRecent \<lparr>key = KCreatedAt, direction = Desc\<rparr> [docB, docA]"
    unfolding pt[THEN conjunct2, THEN conjunct1] shown by (rule refl)
  show ?thesis
    by (intro conjI, rule a, rule b, rule pu)
qed

text \<open>
  The condition on \<open>createdAt\<close> cannot be dropped. A \<open>createdAt\<close> that does not parse
  has the time value \<open>NaN\<close>, every comparison with it counts as 0, and the stable sort
  leaves such documents where they are: after ten undated documents, the only dated one
  is not among the ten shown.
\<close>

lemma insertBy_undated:
  assumes "getTime h (createdAt d) = None"
  shows "insertBy (recentCompare h) d ys = d # ys"
  using assms by (cases ys) (simp_all add: recentCompare_def numDiff_def split: option.splits)

lemma jsSort_undated:
  assumes "\<forall>d \<in> set docs. getTime h (createdAt d) = None"
  shows "jsSort (recentCompare h) (docs @ [x]) = docs @ [x]"
  using assms by (induction docs) (simp_all add: jsSort_def insertBy_undated)

lemma docUndated_time: "getTime sampleHost (createdAt (docUndated n)) = None"
  by (simp add: docUndated_def sampleDoc_def getTime_def sampleHost_def isoParse_def)

lemma docUndated_conform: "hasSearchFields (docUndated n)"
  by (simp add: docUndated_def sampleDoc_def hasSearchFields_def)

lemma undated_documents_shown:
  "lastRenderedDocs (snd (handleSearch sampleHost (initialState (map docUndated [0..<10] @ [docB]))))
     = map docUndated [0..<10]"
proof -
  let ?docs = "map docUndated [0..<10]"
  let ?s = "initialState (?docs @ [docB])"
  have q: "trim (searchInput ?s) = []"
    by (simp add: initialState_def trim_def)
  have ds: "documents ?s = ?docs @ [docB]"
    by (simp add: initialState_def)
  have srt: "jsSort (recentCompare sampleHost) (?docs @ [docB]) = ?docs @ [docB]"
    by (rule jsSort_undated) (simp add: docUndated_time)
  have tk: "take 10 (?docs @ [docB]) = ?docs"
    by simp
  have ne: "?docs @ [docB] \<noteq> []"
    by simp
  show ?thesis
    unfolding handleSearch_blank[OF q]
    by (simp only: renderRecentDocuments_def renderResultsTable_def Let_def ds srt tk ne
          if_False snd_conv)
       simp
qed

lemma sample_trim3: "trim ''abc '' = ''abc''"
  by code_simp

lemma raw_query_no_match: "\<not> specMatches ''abc '' docA" "\<not> specMatches ''abc '' docB"
  unfolding specMatches_def fieldContains_code containsIgnoringCase_code
  by code_simp+

text \<open>
  The claim as first stated takes the query as typed. The query \<open>abc\<close> followed by a
  space finds the document tagged \<open>ABC\<close>, although the typed query, with its space, is
  a substring of no field of any document.
\<close>

theorem search_trimmed_query_counterexample:
  "lastRenderedDocs (snd (handleSearch sampleHost
      ((initialState [docA, docB])\<lparr>searchInput := ''abc ''\<rparr>))) = [docA]
   \<and> filter (specMatches ''abc '') [docA, docB] = []"
proof -
  let ?s = "(initialState [docA, docB])\<lparr>searchInput := ''abc ''\<rparr>"
  have ts: "trim (searchInput ?s) = ''abc''"
    by (simp add: sample_trim3)
  have q: "trim (searchInput ?s) \<noteq> []"
    unfolding ts by simp
  have ds: "documents ?s = [docA, docB]"
    by (simp add: initialState_def)
  have "\<forall>d \<in> set (documents ?s). \<not> missingBeforeMatch (trim (searchInput ?s)) d"
    unfolding ds using sample_conform conforming_not_missing by simp
  note res = handleSearch_results[OF q this, of sampleHost]
  have a: "lastRenderedDocs (snd (handleSearch sampleHost ?s)) = [docA]"
    unfolding res ts ds using docA_abc(1) docB_abc
    by (simp add: renderResultsTable_def Let_def)
  have b: "filter (specMatches ''abc '') [docA, docB] = []"
    using raw_query_no_match by simp
  show ?thesis
    by (intro conjI, rule a, rule b)
qed

section \<open>Sorting by document date\<close>

lemma split_date:
  assumes "d1 \<noteq> CHR ''/''" "d2 \<noteq> CHR ''/''" "m1 \<noteq> CHR ''/''" "m2 \<noteq> CHR ''/''"
    "y1 \<noteq> CHR ''/''" "y2 \<noteq> CHR ''/''" "y3 \<noteq> CHR ''/''" "y4 \<noteq> CHR ''/''"
  shows "split_on CHR ''/'' [d1, d2, CHR ''/'', m1, m2, CHR ''/'', y1, y2, y3, y4] =
           [[d1, d2], [m1, m2], [y1, y2, y3, y4]]"
  using assms by simp

lemma digit_not_slash: "isDigit c \<Longrightarrow> c \<noteq> CHR ''/''"
  by (auto simp: isDigit_def)

lemma digit_not_space: "isDigit c \<Longrightarrow> \<not> isWhiteSpace c"
  by (auto simp: isDigit_def isWhiteSpace_def)

lemma digit_not_sign: "isDigit c \<Longrightarrow> c \<noteq> CHR ''-'' \<and> c \<noteq> CHR ''+''"
  by (auto simp: isDigit_def)

lemma parseInt_digits:
  assumes "ds \<noteq> []" "\<forall>c \<in> set ds. isDigit c"
  shows "parseInt ds = Some (int (digitsVal ds))"
proof -
  obtain c r where ds: "ds = c # r" using assms(1) by (cases ds) auto
  with assms(2) have c: "isDigit c" by simp
  have dw: "dropWhile isWhiteSpace ds = ds"
    using ds digit_not_space[OF c] by simp
  have tw: "takeWhile isDigit ds = ds"
    using assms(2) by (simp add: takeWhile_eq_all_conv)
  show ?thesis
    unfolding parseInt_def dw Let_def
    using ds digit_not_sign[OF c] tw assms(1) by simp
qed

text \<open>
  On a date of the form the application validates, \<open>beDateToTimestamp\<close> is the time value
  of the \<open>Date\<close> built from the year less 543, the month less 1 and the day.
\<close>

lemma beDateToTimestamp_digits:
  assumes "isDigit d1" "isDigit d2" "isDigit m1" "isDigit m2"
    "isDigit y1" "isDigit y2" "isDigit y3" "isDigit y4"
  shows "beDateToTimestamp h (Some [d1, d2, CHR ''/'', m1, m2, CHR ''/'', y1, y2, y3, y4]) =
           TimeClip (UTC h (MakeDate
             (MakeDay (MakeFullYear (int (digitsVal [y1, y2, y3, y4]) - 543))
                (int (digitsVal [m1, m2]) - 1) (int (digitsVal [d1, d2]))) 0))"
proof -
  have sp: "split_on CHR ''/'' [d1, d2, CHR ''/'', m1, m2, CHR ''/'', y1, y2, y3, y4] =
           [[d1, d2], [m1, m2], [y1, y2, y3, y4]]"
    by (rule split_date) (simp_all add: assms digit_not_slash)
  have p: "parseInt [d1, d2] = Some (int (digitsVal [d1, d2]))"
    "parseInt [m1, m2] = Some (int (digitsVal [m1, m2]))"
    "parseInt [y1, y2, y3, y4] = Some (int (digitsVal [y1, y2, y3, y4]))"
    by (rule parseInt_digits; simp add: assms)+
  show ?thesis
    unfolding beDateToTimestamp_def
    by (simp add: sp p Let_def minus_num_def newDate_def del: split_on.simps)
qed

lemma sample_dates:
  "beDateToTimestamp sampleHost (docDate docA) = Some 1672506000000"
  "beDateToTimestamp sampleHost (docDate docB) = Some 1640970000000"
  "beDateToTimestamp sampleHost (docDate docBE2400) = Some (- 3565926000000)"
  "beDateToTimestamp sampleHost (docDate docBE0600) = Some (- 410252400000)"
  by code_simp+

text \<open>
  C6 (defect in the code). The year less 543 is handed to the \<open>Date\<close> constructor,
  which reads a year from 0 to 99 as 1900 + year. A date in the Buddhist-Era years 0543 to
  0642 is therefore compared as a date of the twentieth century: 01/01/0600 (57 CE) gets the
  time value of 1 January 1957 and sorts, in descending order, before 01/01/2400 (1857 CE).
  For the dates of the claim's own example the order is the calendar's: 01/01/2566 comes
  before 01/01/2565.
\<close>

theorem docDate_sort_two_digit_year:
  "beDateToTimestamp sampleHost (Some ''01/01/2400'') = Some (- 3565926000000)
   \<and> beDateToTimestamp sampleHost (Some ''01/01/0600'') = Some (- 410252400000)
   \<and> MakeFullYear (600 - 543) = 1957
   \<and> sortDocs sampleHost \<lparr>key = KDocDate, direction = Desc\<rparr> [docBE2400, docBE0600]
        = [docBE0600, docBE2400]
   \<and> sortDocs sampleHost \<lparr>key = KDocDate, direction = Desc\<rparr> [docB, docA] = [docA, docB]"
proof -
  have a: "beDateToTimestamp sampleHost (Some ''01/01/2400'') = Some (- 3565926000000)"
    "beDateToTimestamp sampleHost (Some ''01/01/0600'') = Some (- 410252400000)"
    by code_simp+
  have b: "MakeFullYear (600 - 543) = 1957"
    by (simp add: MakeFullYear_def)
  have c: "sortDocs sampleHost \<lparr>key = KDocDate, direction = Desc\<rparr> [docBE2400, docBE0600]
        = [docBE0600, docBE2400]"
    by (simp add: sortDocs_def jsSort_def compareDocs_def Let_def sample_dates numDiff_def)
  have d: "sortDocs sampleHost \<lparr>key = KDocDate, direction = Desc\<rparr> [docB, docA] = [docA, docB]"
    by (simp add: sortDocs_def jsSort_def compareDocs_def Let_def sample_dates numDiff_def)
  show ?thesis
    by (intro conjI, rule a(1), rule a(2), rule b, rule c, rule d)
qed

end
